theory Spec2Isabelle
  imports Main "HOL-Library.Word"
begin

section \<open>Values of the program\<close>

text \<open>
  The two scripts \<^verbatim>\<open>uart_interface.py\<close> (the session variant) and
  \<^verbatim>\<open>python/uart_interface_loopback.py\<close> (the self-test variant) handle Python
  \<^verbatim>\<open>bytes\<close> (lists of 8-bit values), Python \<^verbatim>\<open>int\<close> (unbounded) and
  \<^verbatim>\<open>str\<close>. Every exception the code can raise is a value of \<open>error\<close>.
\<close>

type_synonym byte = "8 word"

datatype error =
    ValueError
  | IndexError
  | UnboundLocalError
  | EOFError
  | EnvironmentError
  | UnicodeDecodeError
  | UnicodeEncodeError
  | SystemExit

section \<open>Python built-ins used by the scripts\<close>

text \<open>
  \<^verbatim>\<open>range(start, stop, step)\<close> for a step other than zero (a zero step raises
  \<^verbatim>\<open>ValueError\<close>, which the callers below check first).
\<close>

function py_range :: "int \<Rightarrow> int \<Rightarrow> int \<Rightarrow> int list" where
  "py_range i stop step =
     (if 0 < step \<and> i < stop then i # py_range (i + step) stop step
      else if step < 0 \<and> stop < i then i # py_range (i + step) stop step
      else [])"
  by pat_completeness auto
termination
  by (relation "measure (\<lambda>(i, stop, step). nat (if 0 < step then stop - i else i - stop))") auto

declare py_range.simps [simp del]

text \<open>
  \<^verbatim>\<open>xs[a:b]\<close>: a negative bound counts from the end, and both bounds are clamped to
  the list.
\<close>

definition py_clamp :: "nat \<Rightarrow> int \<Rightarrow> nat" where
  "py_clamp n k = (if k < 0 then nat (max 0 (int n + k)) else min n (nat k))"

definition py_slice :: "'a list \<Rightarrow> int \<Rightarrow> int \<Rightarrow> 'a list" where
  "py_slice xs a b =
     (let lo = py_clamp (length xs) a; hi = py_clamp (length xs) b
      in take (hi - lo) (drop lo xs))"

section \<open>Chunked transport: splitting\<close>

text \<open>
  \<^verbatim>\<open>
  def divide_chunks(data: bytes, chunk_size: int) -> List[bytes]:
      chunks = []
      for i in range(0, len(data), chunk_size):
          chunks.append(data[i:i + chunk_size])
      return chunks
  \<close>
  The loop appends one slice per element of the range, in order: a \<open>map\<close> over the range.
\<close>

definition divide_chunks :: "byte list \<Rightarrow> int \<Rightarrow> error + byte list list" where
  "divide_chunks data chunk_size =
     (if chunk_size = 0 then Inl ValueError
      else Inr (map (\<lambda>i. py_slice data i (i + chunk_size))
                    (py_range 0 (int (length data)) chunk_size)))"

text \<open>
  The partition the loop computes, by direct recursion on the payload: cut \<open>k\<close> bytes off
  the front until nothing is left. It is used to reason about \<open>divide_chunks\<close> only.
\<close>

function chunks_of :: "nat \<Rightarrow> 'a list \<Rightarrow> 'a list list" where
  "chunks_of k xs =
     (if k = 0 \<or> xs = [] then [] else take k xs # chunks_of k (drop k xs))"
  by pat_completeness auto
termination
  by (relation "measure (\<lambda>(k, xs). length xs)") auto

declare chunks_of.simps [simp del]

section \<open>Chunked transport: the serial port\<close>

text \<open>
  The serial library is not part of the repository. What the scripts do with it is recorded
  as a trace of events, in program order: opening a port (\<^verbatim>\<open>serial.Serial(port, baudrate)\<close>),
  \<^verbatim>\<open>time.sleep(0.1)\<close> (100 ms), each \<^verbatim>\<open>ser.write\<close> call with its argument, each
  \<^verbatim>\<open>ser.read(size=n)\<close> call, and the close at the end of a \<^verbatim>\<open>with\<close> block. Console
  input and output are events of the same trace.

  A write call is given either one element of a \<^verbatim>\<open>bytes\<close> object (\<^verbatim>\<open>chunk[i]\<close>) or a
  \<^verbatim>\<open>bytes\<close> object (\<^verbatim>\<open>b'0'\<close>, \<^verbatim>\<open>input_bytes\<close>); the trace keeps the two apart.
\<close>

datatype wr_arg = Elem byte | Bytes "byte list"

datatype event =
    Banner
  | Print string
  | Input string
  | Scan
  | Open string int
  | Sleep_ms nat
  | Write wr_arg
  | Read nat
  | Close

text \<open>How a call ends: it returns a value, raises, or never returns (a blocking read).\<close>

datatype 'a outcome = Returns 'a | Raises error | Blocks

text \<open>
  \<^verbatim>\<open>
  def write_chunk(chunk: bytes, port: str, baudrate: int):
      with serial.Serial(port, baudrate) as ser:
          time.sleep(0.1)
          for i in range(len(chunk)):
              ser.write(chunk[i])
          for _ in range(i+1, 16):
              ser.write(b'0')
  \<close>
  After the first loop \<open>i\<close> is the last index it ran over. When the chunk is empty the
  loop never binds \<open>i\<close>, and \<^verbatim>\<open>range(i+1, 16)\<close> raises \<^verbatim>\<open>UnboundLocalError\<close>; the
  \<^verbatim>\<open>with\<close> block closes the port on the way out.
\<close>

definition write_chunk :: "byte list \<Rightarrow> string \<Rightarrow> int \<Rightarrow> event list \<times> unit outcome" where
  "write_chunk chunk port baudrate =
     (let idx = py_range 0 (int (length chunk)) 1;
          body = map (\<lambda>i. Write (Elem (chunk ! nat i))) idx
      in if idx = []
         then ([Open port baudrate, Sleep_ms 100] @ body @ [Close], Raises UnboundLocalError)
         else ([Open port baudrate, Sleep_ms 100] @ body
                 @ map (\<lambda>_. Write (Bytes [0x30])) (py_range (last idx + 1) 16 1) @ [Close],
               Returns ()))"

text \<open>
  \<^verbatim>\<open>
  def read_chunk(port: str, baudrate: int) -> bytes:
      with serial.Serial(port, baudrate) as ser:
          time.sleep(0.1)
          chunk = ser.read(size=16)
      return chunk
  \<close>
  The port is opened without a timeout, so the read returns once 16 bytes have arrived and
  not before. \<open>incoming\<close> is what the device sends while the port is open.
\<close>

definition read_chunk :: "string \<Rightarrow> int \<Rightarrow> byte list \<Rightarrow> event list \<times> byte list outcome" where
  "read_chunk port baudrate incoming =
     (if length incoming < 16
      then ([Open port baudrate, Sleep_ms 100, Read 16], Blocks)
      else ([Open port baudrate, Sleep_ms 100, Read 16, Close], Returns (take 16 incoming)))"

text \<open>
  The bytes a trace puts on the wire, given what the driver transmits for one write call.
\<close>

definition on_wire :: "(wr_arg \<Rightarrow> byte list) \<Rightarrow> event list \<Rightarrow> byte list" where
  "on_wire tx tr = concat (map (\<lambda>e. case e of Write a \<Rightarrow> tx a | _ \<Rightarrow> []) tr)"

text \<open>
  The serial library (pyserial, imported as \<^verbatim>\<open>serial\<close>) is not part of the repository.
  Its \<^verbatim>\<open>write(data)\<close> transmits \<^verbatim>\<open>to_bytes(data)\<close>: a \<^verbatim>\<open>bytes\<close> object goes out as it
  is, and any other argument goes out as \<^verbatim>\<open>bytes(bytearray(data))\<close>. An element
  \<^verbatim>\<open>chunk[i]\<close> of a \<^verbatim>\<open>bytes\<close> object is an \<^verbatim>\<open>int\<close> \<open>n\<close> in Python 3, and
  \<^verbatim>\<open>bytes(bytearray(n))\<close> is \<open>n\<close> zero bytes. (Releases of the library older than 3.0 build
  the bytes by iterating over the argument and raise \<^verbatim>\<open>TypeError\<close> when it is an
  \<^verbatim>\<open>int\<close>; in neither case does the value \<open>n\<close> itself go out.)
\<close>

fun to_bytes :: "wr_arg \<Rightarrow> byte list" where
  "to_bytes (Elem n) = replicate (unat n) 0"
| "to_bytes (Bytes bs) = bs"

text \<open>Sequencing of two steps: the traces are appended; a raise or a block ends the run.\<close>

fun bind_io :: "event list \<times> 'a outcome \<Rightarrow> ('a \<Rightarrow> event list \<times> 'b outcome)
                  \<Rightarrow> event list \<times> 'b outcome" where
  "bind_io (tr, Returns x) f = (case f x of (tr', r) \<Rightarrow> (tr @ tr', r))"
| "bind_io (tr, Raises e) f = (tr, Raises e)"
| "bind_io (tr, Blocks) f = (tr, Blocks)"

fun lift_io :: "error + 'a \<Rightarrow> event list \<times> 'a outcome" where
  "lift_io (Inl e) = ([], Raises e)"
| "lift_io (Inr x) = ([], Returns x)"

section \<open>Text encoding\<close>

text \<open>
  A Python \<^verbatim>\<open>str\<close> is a sequence of code points. \<^verbatim>\<open>str.encode()\<close> and
  \<^verbatim>\<open>bytes.decode()\<close> without arguments use UTF-8 with strict error handling: a
  surrogate code point cannot be encoded, and bytes that are not well-formed UTF-8 (a stray
  or missing continuation byte, an overlong form, an encoded surrogate, a value above
  \<open>0x10FFFF\<close>) cannot be decoded.
\<close>

type_synonym py_str = "nat list"

definition encode_cp :: "nat \<Rightarrow> error + byte list" where
  "encode_cp c =
     (if c < 0x80 then Inr [of_nat c]
      else if c < 0x800 then Inr [of_nat (0xC0 + c div 64), of_nat (0x80 + c mod 64)]
      else if 0xD800 \<le> c \<and> c < 0xE000 then Inl UnicodeEncodeError
      else if c < 0x10000 then
        Inr [of_nat (0xE0 + c div 4096), of_nat (0x80 + c div 64 mod 64), of_nat (0x80 + c mod 64)]
      else if c < 0x110000 then
        Inr [of_nat (0xF0 + c div 262144), of_nat (0x80 + c div 4096 mod 64),
             of_nat (0x80 + c div 64 mod 64), of_nat (0x80 + c mod 64)]
      else Inl UnicodeEncodeError)"

fun encode :: "py_str \<Rightarrow> error + byte list" where
  "encode [] = Inr []"
| "encode (c # cs) =
     (case encode_cp c of
        Inl e \<Rightarrow> Inl e
      | Inr bs \<Rightarrow> (case encode cs of Inl e \<Rightarrow> Inl e | Inr rest \<Rightarrow> Inr (bs @ rest)))"

definition continuation :: "byte \<Rightarrow> bool" where
  "continuation b \<longleftrightarrow> 0x80 \<le> b \<and> b \<le> 0xBF"

text \<open>
  The second byte of a sequence is a continuation byte in a range narrowed by the lead byte:
  this is what excludes overlong forms, surrogates and values above \<open>0x10FFFF\<close>.
\<close>

definition second_lo :: "byte \<Rightarrow> byte" where
  "second_lo b = (if b = 0xE0 then 0xA0 else if b = 0xF0 then 0x90 else 0x80)"

definition second_hi :: "byte \<Rightarrow> byte" where
  "second_hi b = (if b = 0xED then 0x9F else if b = 0xF4 then 0x8F else 0xBF)"

definition tail_bits :: "byte \<Rightarrow> nat" where
  "tail_bits b = unat b - 0x80"

fun push_cp :: "nat \<Rightarrow> error + py_str \<Rightarrow> error + py_str" where
  "push_cp c (Inl e) = Inl e"
| "push_cp c (Inr cs) = Inr (c # cs)"

text \<open>
  The first code point of \<open>b # bs\<close> and the bytes after it, or \<open>None\<close> when \<open>b\<close> does
  not start a well-formed sequence.
\<close>

definition decode_one :: "byte \<Rightarrow> byte list \<Rightarrow> (nat \<times> byte list) option" where
  "decode_one b bs =
     (if b < 0x80 then Some (unat b, bs)
      else if 0xC2 \<le> b \<and> b \<le> 0xDF then
        (case bs of
           b1 # r \<Rightarrow>
             if continuation b1
             then Some ((unat b - 0xC0) * 64 + tail_bits b1, r)
             else None
         | _ \<Rightarrow> None)
      else if 0xE0 \<le> b \<and> b \<le> 0xEF then
        (case bs of
           b1 # b2 # r \<Rightarrow>
             if second_lo b \<le> b1 \<and> b1 \<le> second_hi b \<and> continuation b2
             then Some ((unat b - 0xE0) * 4096 + tail_bits b1 * 64 + tail_bits b2, r)
             else None
         | _ \<Rightarrow> None)
      else if 0xF0 \<le> b \<and> b \<le> 0xF4 then
        (case bs of
           b1 # b2 # b3 # r \<Rightarrow>
             if second_lo b \<le> b1 \<and> b1 \<le> second_hi b \<and> continuation b2 \<and> continuation b3
             then Some ((unat b - 0xF0) * 262144 + tail_bits b1 * 4096
                          + tail_bits b2 * 64 + tail_bits b3, r)
             else None
         | _ \<Rightarrow> None)
      else None)"

function decode :: "byte list \<Rightarrow> error + py_str" where
  "decode [] = Inr []"
| "decode (b # bs) =
     (case decode_one b bs of
        None \<Rightarrow> Inl UnicodeDecodeError
      | Some (c, r) \<Rightarrow> push_cp c (decode r))"
  by pat_completeness auto
termination
  by (relation "measure length") (auto simp: decode_one_def split: if_splits list.splits)

text \<open>\<^verbatim>\<open>[b.decode() for b in output_chunks]\<close>: each chunk is decoded on its own.\<close>

fun decode_each :: "byte list list \<Rightarrow> error + py_str list" where
  "decode_each [] = Inr []"
| "decode_each (b # bs) =
     (case decode b of
        Inl e \<Rightarrow> Inl e
      | Inr t \<Rightarrow> (case decode_each bs of Inl e \<Rightarrow> Inl e | Inr ts \<Rightarrow> Inr (t # ts)))"

section \<open>Session loop\<close>

text \<open>
  One pass of the loop body of \<^verbatim>\<open>uart_interface.py\<close>:
  \<^verbatim>\<open>
  input_text = str(input("Text to send ?\n"))
  input_bytes = input_text.encode()
  input_chunks = divide_chunks(input_bytes, 16)
  output_chunks: List[bytes] = []
  for i,current_chunk in enumerate(input_chunks):
      write_chunk(current_chunk, port, baudrate)
      current_chunk = read_chunk(port, baudrate)
      output_chunks.append(current_chunk)
  output_text = "".join([b.decode() for b in output_chunks])[:len(input_text)]
  \<close>
  The \<^verbatim>\<open>print\<close> calls in between display the fields of the record below.
  \<open>incoming\<close> lists, for each \<^verbatim>\<open>read_chunk\<close> call in turn, what the device sends while
  that call has the port open; once the list is used up the device sends nothing more.
\<close>

record round =
  input_bytes :: "byte list"
  input_chunks :: "byte list list"
  output_chunks :: "byte list list"
  output_text :: py_str

fun transfer_each :: "string \<Rightarrow> int \<Rightarrow> byte list list \<Rightarrow> byte list list
                        \<Rightarrow> event list \<times> byte list list outcome" where
  "transfer_each port baudrate [] incoming = ([], Returns [])"
| "transfer_each port baudrate (current_chunk # rest) incoming =
     bind_io (write_chunk current_chunk port baudrate) (\<lambda>_.
     bind_io (read_chunk port baudrate (case incoming of [] \<Rightarrow> [] | r # _ \<Rightarrow> r)) (\<lambda>answer.
     bind_io (transfer_each port baudrate rest (tl incoming)) (\<lambda>answers.
       ([], Returns (answer # answers)))))"

definition session_round :: "string \<Rightarrow> int \<Rightarrow> byte list list \<Rightarrow> py_str
                               \<Rightarrow> event list \<times> round outcome" where
  "session_round port baudrate incoming input_text =
     bind_io (lift_io (encode input_text)) (\<lambda>bs.
     bind_io (lift_io (divide_chunks bs 16)) (\<lambda>chunks.
     bind_io (transfer_each port baudrate chunks incoming) (\<lambda>answers.
     bind_io (lift_io (decode_each answers)) (\<lambda>texts.
       ([], Returns \<lparr>input_bytes = bs, input_chunks = chunks, output_chunks = answers,
                     output_text = take (length input_text) (concat texts)\<rparr>)))))"

text \<open>
  The device of the loopback assumption: during each \<^verbatim>\<open>read_chunk\<close> it sends back the
  frame that the \<^verbatim>\<open>write_chunk\<close> before it put on the wire, byte for byte.
\<close>

definition verbatim_echo :: "(wr_arg \<Rightarrow> byte list) \<Rightarrow> string \<Rightarrow> int \<Rightarrow> py_str
                               \<Rightarrow> byte list list" where
  "verbatim_echo tx port baudrate input_text =
     (case encode input_text of
        Inl _ \<Rightarrow> []
      | Inr bs \<Rightarrow>
          (case divide_chunks bs 16 of
             Inl _ \<Rightarrow> []
           | Inr chunks \<Rightarrow> map (\<lambda>c. on_wire tx (fst (write_chunk c port baudrate))) chunks))"

section \<open>Console: numbers and hexadecimal text\<close>

text \<open>
  Console lines (\<^verbatim>\<open>input\<close>) and messages (\<^verbatim>\<open>print\<close>) are strings of 8-bit
  characters. \<^verbatim>\<open>str(n)\<close>, as the f-strings use it, is the decimal numeral.
\<close>

definition digit_char :: "nat \<Rightarrow> char" where
  "digit_char n = ''0123456789'' ! n"

function show_nat :: "nat \<Rightarrow> string" where
  "show_nat n = (if n < 10 then [digit_char n] else show_nat (n div 10) @ [digit_char (n mod 10)])"
  by pat_completeness auto
termination
  by (relation "measure id") auto

declare show_nat.simps [simp del]

definition show_int :: "int \<Rightarrow> string" where
  "show_int i = (if i < 0 then CHR ''-'' # show_nat (nat (- i)) else show_nat (nat i))"

text \<open>
  \<^verbatim>\<open>int(s)\<close> for a string: white space around the numeral is dropped, one sign may come
  first, and the digits may be separated by single underscores. Anything else raises
  \<^verbatim>\<open>ValueError\<close> (\<open>None\<close>). The white space is the ASCII white space and, of the 8-bit
  characters, U+0085 and U+00A0. (Interpreters that limit the number of digits of a numeral
  raise \<^verbatim>\<open>ValueError\<close> beyond the limit; the limit is not modelled.)
\<close>

definition int_space :: "char \<Rightarrow> bool" where
  "int_space c = (let n = of_char c :: nat in (9 \<le> n \<and> n \<le> 13) \<or> n = 32 \<or> n = 133 \<or> n = 160)"

definition digit_value :: "char \<Rightarrow> nat option" where
  "digit_value c = (let n = of_char c :: nat in if 48 \<le> n \<and> n \<le> 57 then Some (n - 48) else None)"

fun int_digits :: "nat \<Rightarrow> string \<Rightarrow> nat option" where
  "int_digits acc [] = Some acc"
| "int_digits acc [c] = (case digit_value c of None \<Rightarrow> None | Some v \<Rightarrow> Some (acc * 10 + v))"
| "int_digits acc (c # d # cs) =
     (if c = CHR ''_''
      then (case digit_value d of None \<Rightarrow> None | Some v \<Rightarrow> int_digits (acc * 10 + v) cs)
      else (case digit_value c of None \<Rightarrow> None | Some v \<Rightarrow> int_digits (acc * 10 + v) (d # cs)))"

definition py_int :: "string \<Rightarrow> int option" where
  "py_int s =
     (let t = dropWhile int_space s;
          negative = (case t of [] \<Rightarrow> False | c # _ \<Rightarrow> c = CHR ''-'');
          signed = (case t of [] \<Rightarrow> False | c # _ \<Rightarrow> c = CHR ''-'' \<or> c = CHR ''+'');
          body = rev (dropWhile int_space (rev (if signed then tl t else t)))
      in case body of
           [] \<Rightarrow> None
         | c # r \<Rightarrow>
             (case digit_value c of
                None \<Rightarrow> None
              | Some v \<Rightarrow>
                  (case int_digits v r of
                     None \<Rightarrow> None
                   | Some n \<Rightarrow> Some (if negative then - int n else int n))))"

text \<open>
  \<^verbatim>\<open>xs[i]\<close>: a negative index counts from the end; out of range raises
  \<^verbatim>\<open>IndexError\<close>.
\<close>

definition py_index :: "'a list \<Rightarrow> int \<Rightarrow> error + 'a" where
  "py_index xs i =
     (if 0 \<le> i \<and> i < int (length xs) then Inr (xs ! nat i)
      else if i < 0 \<and> - int (length xs) \<le> i then Inr (xs ! nat (int (length xs) + i))
      else Inl IndexError)"

text \<open>\<^verbatim>\<open>bytes.hex()\<close>: two lower-case hexadecimal digits per byte.\<close>

definition hex_char :: "nat \<Rightarrow> char" where
  "hex_char n = ''0123456789abcdef'' ! n"

definition hex :: "byte list \<Rightarrow> string" where
  "hex bs = concat (map (\<lambda>b. [hex_char (unat b div 16), hex_char (unat b mod 16)]) bs)"

text \<open>
  \<^verbatim>\<open>bytes.fromhex(s)\<close>: two hexadecimal digits per byte, of either case; ASCII white
  space is skipped where a byte could start, and not between the two digits of a byte.
  Anything else raises \<^verbatim>\<open>ValueError\<close>.
\<close>

definition ascii_space :: "char \<Rightarrow> bool" where
  "ascii_space c = (let n = of_char c :: nat in (9 \<le> n \<and> n \<le> 13) \<or> n = 32)"

definition hex_value :: "char \<Rightarrow> nat option" where
  "hex_value c =
     (let n = of_char c :: nat
      in if 48 \<le> n \<and> n \<le> 57 then Some (n - 48)
         else if 97 \<le> n \<and> n \<le> 102 then Some (n - 87)
         else if 65 \<le> n \<and> n \<le> 70 then Some (n - 55)
         else None)"

fun fromhex :: "string \<Rightarrow> error + byte list" where
  "fromhex [] = Inr []"
| "fromhex [c] = (if ascii_space c then Inr [] else Inl ValueError)"
| "fromhex (c # d # cs) =
     (if ascii_space c then fromhex (d # cs)
      else (case hex_value c of
              None \<Rightarrow> Inl ValueError
            | Some h \<Rightarrow>
                (case hex_value d of
                   None \<Rightarrow> Inl ValueError
                 | Some l \<Rightarrow>
                     (case fromhex cs of
                        Inl e \<Rightarrow> Inl e
                      | Inr bs \<Rightarrow> Inr (of_nat (h * 16 + l) # bs)))))"

section \<open>Port enumerator\<close>

text \<open>
  \<^verbatim>\<open>serial_ports()\<close> (the same in both scripts) reads the platform name, globs device
  nodes and tries to open each candidate. What it finds is the environment's: \<open>platform\<close>
  is \<^verbatim>\<open>sys.platform\<close>, \<open>glob\<close> answers \<^verbatim>\<open>glob.glob\<close>, and \<open>openable\<close> says whether
  \<^verbatim>\<open>serial.Serial(port)\<close> succeeds (a failure with \<^verbatim>\<open>OSError\<close> or
  \<^verbatim>\<open>SerialException\<close> drops the candidate).
\<close>

record sysenv =
  platform :: string
  glob :: "string \<Rightarrow> string list"
  openable :: "string \<Rightarrow> bool"

definition startswith :: "string \<Rightarrow> string \<Rightarrow> bool" where
  "startswith s p = (take (length p) s = p)"

definition serial_ports :: "sysenv \<Rightarrow> error + string list" where
  "serial_ports env =
     (if startswith (platform env) ''win''
      then Inr (filter (openable env) (map (\<lambda>i. ''COM'' @ show_nat (i + 1)) [0..<256]))
      else if startswith (platform env) ''linux'' \<or> startswith (platform env) ''cygwin''
      then Inr (filter (openable env) (glob env ''/dev/tty[A-Za-z]*''))
      else if startswith (platform env) ''darwin''
      then Inr (filter (openable env) (glob env ''/dev/tty.*''))
      else Inl EnvironmentError)"

section \<open>Interactive selector\<close>

text \<open>
  The functions that read the console take the lines still to come on standard input and
  return, with their value, the lines they left; \<^verbatim>\<open>input\<close> at the end of the input
  raises \<^verbatim>\<open>EOFError\<close>. The environment may change between two enumerations:
  \<open>world k\<close> is the environment at the \<open>k\<close>-th call of \<^verbatim>\<open>serial_ports()\<close>, and each call
  leaves a \<open>Scan\<close> event in the trace.

  \<^verbatim>\<open>
  available_ports = serial_ports()
  while len(available_ports) == 0:
      input("No serial port available. Make sure to connect to device then press enter to try again")
      available_ports = serial_ports()
  \<close>
\<close>

definition no_port_prompt :: string where
  "no_port_prompt =
     ''No serial port available. Make sure to connect to device then press enter to try again''"

fun await_ports :: "(nat \<Rightarrow> sysenv) \<Rightarrow> nat \<Rightarrow> string list
                      \<Rightarrow> event list \<times> (string list \<times> string list) outcome" where
  "await_ports world k [] =
     (case serial_ports (world k) of
        Inl e \<Rightarrow> ([Scan], Raises e)
      | Inr available_ports \<Rightarrow>
          if length available_ports = 0
          then ([Scan, Input no_port_prompt], Raises EOFError)
          else ([Scan], Returns (available_ports, [])))"
| "await_ports world k (line # rest) =
     (case serial_ports (world k) of
        Inl e \<Rightarrow> ([Scan], Raises e)
      | Inr available_ports \<Rightarrow>
          if length available_ports = 0
          then bind_io ([Scan, Input no_port_prompt], Returns ())
                 (\<lambda>_. await_ports world (Suc k) rest)
          else ([Scan], Returns (available_ports, line # rest)))"

text \<open>
  \<^verbatim>\<open>
  while True:
      print("Choose a serial port:")
      for i, port in enumerate(available_ports):
          print(f"    ({i}) {port}")
      try:
          resp = int(input(""))
      except ValueError:
          print("Wrong reponse type, try again !")
      else:
          try:
              port = available_ports[resp]
              return port
          except IndexError:
              print(f"{resp} is out of range, try again !")
  \<close>
\<close>

definition menu_lines :: "string list \<Rightarrow> event list" where
  "menu_lines available_ports =
     Print ''Choose a serial port:''
       # map (\<lambda>(i, port). Print (''    ('' @ show_nat i @ '') '' @ port))
           (enumerate 0 available_ports)"

fun choose_port :: "string list \<Rightarrow> string list \<Rightarrow> event list \<times> (string \<times> string list) outcome" where
  "choose_port available_ports [] = (menu_lines available_ports @ [Input []], Raises EOFError)"
| "choose_port available_ports (line # rest) =
     (case py_int line of
        None \<Rightarrow>
          bind_io (menu_lines available_ports
                     @ [Input [], Print ''Wrong reponse type, try again !''], Returns ())
            (\<lambda>_. choose_port available_ports rest)
      | Some resp \<Rightarrow>
          (case py_index available_ports resp of
             Inr port \<Rightarrow> (menu_lines available_ports @ [Input []], Returns (port, rest))
           | Inl _ \<Rightarrow>
               bind_io (menu_lines available_ports
                          @ [Input [], Print (show_int resp @ '' is out of range, try again !'')],
                        Returns ())
                 (\<lambda>_. choose_port available_ports rest)))"

text \<open>\<^verbatim>\<open>serial_port_menu()\<close> of \<^verbatim>\<open>uart_interface.py\<close>: always the menu.\<close>

definition serial_port_menu :: "(nat \<Rightarrow> sysenv) \<Rightarrow> nat \<Rightarrow> string list
                                  \<Rightarrow> event list \<times> (string \<times> string list) outcome" where
  "serial_port_menu world k inputs =
     bind_io (await_ports world k inputs) (\<lambda>(available_ports, rest).
       choose_port available_ports rest)"

text \<open>
  \<^verbatim>\<open>serial_port_menu()\<close> of \<^verbatim>\<open>uart_interface_loopback.py\<close>: the same, but a single
  available port is taken without asking.
  \<^verbatim>\<open>
  if len(available_ports) == 1:
      port = available_ports[0]
      print(f'Using only available port "{port}"')
      return port
  \<close>
\<close>

definition loopback_serial_port_menu :: "(nat \<Rightarrow> sysenv) \<Rightarrow> nat \<Rightarrow> string list
                                  \<Rightarrow> event list \<times> (string \<times> string list) outcome" where
  "loopback_serial_port_menu world k inputs =
     bind_io (await_ports world k inputs) (\<lambda>(available_ports, rest).
       if length available_ports = 1
       then ([Print (''Using only available port '' @ [CHR 0x22] @ available_ports ! 0 @ [CHR 0x22])],
             Returns (available_ports ! 0, rest))
       else choose_port available_ports rest)"

text \<open>
  \<^verbatim>\<open>baudrate_menu()\<close> of \<^verbatim>\<open>uart_interface.py\<close> (an empty line selects 230400) and of
  \<^verbatim>\<open>uart_interface_loopback.py\<close>. Any integer is accepted.
\<close>

definition baudrate_prompt :: string where
  "baudrate_prompt = ''Choose a baudrate (leave empty for 230400 by default):''"

fun baudrate_menu :: "string list \<Rightarrow> event list \<times> (int \<times> string list) outcome" where
  "baudrate_menu [] = ([Print baudrate_prompt, Input []], Raises EOFError)"
| "baudrate_menu (resp # rest) =
     (if resp = [] then ([Print baudrate_prompt, Input []], Returns (230400, rest))
      else (case py_int resp of
              None \<Rightarrow>
                bind_io ([Print baudrate_prompt, Input [],
                          Print ''Wrong reponse type, try again !''], Returns ())
                  (\<lambda>_. baudrate_menu rest)
            | Some n \<Rightarrow> ([Print baudrate_prompt, Input []], Returns (n, rest))))"

fun loopback_baudrate_menu :: "string list \<Rightarrow> event list \<times> (int \<times> string list) outcome" where
  "loopback_baudrate_menu [] = ([Print ''Choose a baudrate:'', Input []], Raises EOFError)"
| "loopback_baudrate_menu (resp # rest) =
     (case py_int resp of
        None \<Rightarrow>
          bind_io ([Print ''Choose a baudrate:'', Input [],
                    Print ''Wrong reponse type, try again !''], Returns ())
            (\<lambda>_. loopback_baudrate_menu rest)
      | Some n \<Rightarrow> ([Print ''Choose a baudrate:'', Input []], Returns (n, rest)))"

section \<open>Self-test runner\<close>

text \<open>
  The constants at the head of \<^verbatim>\<open>uart_interface_loopback.py\<close>:
  \<^verbatim>\<open>
  DEFAULT_PORT= None
  DEFAULT_BAUDRATE = 115200
  \<close>
\<close>

definition DEFAULT_PORT :: "string option" where
  "DEFAULT_PORT = None"

definition DEFAULT_BAUDRATE :: int where
  "DEFAULT_BAUDRATE = 115200"

text \<open>
  The exchange of \<^verbatim>\<open>main\<close>:
  \<^verbatim>\<open>
  with serial.Serial(port, baudrate) as ser:
      ser.write(input_bytes)
      output_bytes = ser.read(size=16)
  \<close>
  As in \<open>read_chunk\<close>, the read returns once 16 bytes have arrived. (\<open>payload\<close> stands
  for the script's \<^verbatim>\<open>input_bytes\<close>.)
\<close>

definition exchange :: "string \<Rightarrow> int \<Rightarrow> byte list \<Rightarrow> byte list \<Rightarrow> event list \<times> byte list outcome" where
  "exchange port baudrate payload incoming =
     (if length incoming < 16
      then ([Open port baudrate, Write (Bytes payload), Read 16], Blocks)
      else ([Open port baudrate, Write (Bytes payload), Read 16, Close],
            Returns (take 16 incoming)))"

text \<open>
  \<^verbatim>\<open>main(input_bytes)\<close>: the banner, the port (the default if it is set and available,
  the menu otherwise), the baud rate (the default if it is set, the menu otherwise), and the
  exchange. A default that is \<^verbatim>\<open>None\<close>, empty or zero counts as not set.
\<close>

definition resolve_port :: "(nat \<Rightarrow> sysenv) \<Rightarrow> string list
                              \<Rightarrow> event list \<times> (string \<times> string list) outcome" where
  "resolve_port world inputs =
     (case DEFAULT_PORT of
        None \<Rightarrow>
          bind_io ([Print ''Default serial port is not set.''], Returns ())
            (\<lambda>_. loopback_serial_port_menu world 0 inputs)
      | Some p \<Rightarrow>
          if p = [] then
            bind_io ([Print ''Default serial port is not set.''], Returns ())
              (\<lambda>_. loopback_serial_port_menu world 0 inputs)
          else
            (case serial_ports (world 0) of
               Inl e \<Rightarrow> ([Scan], Raises e)
             | Inr ports \<Rightarrow>
                 if p \<in> set ports
                 then ([Scan, Print (''Using default serial port: '' @ p)], Returns (p, inputs))
                 else bind_io ([Scan, Print ''Default serial port is not available.''], Returns ())
                        (\<lambda>_. loopback_serial_port_menu world 1 inputs)))"

definition resolve_baudrate :: "string list \<Rightarrow> event list \<times> (int \<times> string list) outcome" where
  "resolve_baudrate inputs =
     (if DEFAULT_BAUDRATE \<noteq> 0
      then ([Print (''Using default baudrate: '' @ show_int DEFAULT_BAUDRATE)],
            Returns (DEFAULT_BAUDRATE, inputs))
      else bind_io ([Print ''Default baudrate is not set.''], Returns ())
             (\<lambda>_. loopback_baudrate_menu inputs))"

definition main :: "byte list \<Rightarrow> (nat \<Rightarrow> sysenv) \<Rightarrow> string list \<Rightarrow> byte list
                      \<Rightarrow> event list \<times> byte list outcome" where
  "main payload world inputs incoming =
     bind_io ([Banner], Returns ()) (\<lambda>_.
     bind_io (resolve_port world inputs) (\<lambda>(port, rest).
     bind_io (resolve_baudrate rest) (\<lambda>(baudrate, _).
     bind_io ([Print [], Print (''Sending input data: '' @ [CHR 0x09] @ hex payload),
               Print []], Returns ()) (\<lambda>_.
       exchange port baudrate payload incoming))))"

text \<open>
  The script itself, for a literal \<open>literal\<close> in the place of \<^verbatim>\<open>input_data\<close>:
  \<^verbatim>\<open>
  try:
      if len(input_data) != 32:
          print(f'"input_data" length is not 16 bytes')
          exit()
      input_bytes = bytes.fromhex(input_data)
  except ValueError:
      print(f'"input_data" value is not a correct hexadecimal form')
      exit()
  output_bytes = main(input_bytes)
  print(f"Received data: \t\t{output_bytes.hex()}")
  print("\nLoopback test status: \t",end="")
  if (input_data == output_bytes.hex()):
      print("SUCCES")
  else:
      print("FAIL")
  \<close>
  \<^verbatim>\<open>exit()\<close> raises \<^verbatim>\<open>SystemExit\<close>, which the \<^verbatim>\<open>except ValueError\<close> clause lets
  through; \<^verbatim>\<open>bytes.fromhex\<close> raises nothing but \<^verbatim>\<open>ValueError\<close>.
\<close>

definition input_data :: string where
  "input_data = ''000102030405060708090a0b0c0d0e0f''"

definition length_error :: string where
  "length_error = [CHR 0x22] @ ''input_data'' @ [CHR 0x22] @ '' length is not 16 bytes''"

definition hex_error :: string where
  "hex_error = [CHR 0x22] @ ''input_data'' @ [CHR 0x22] @ '' value is not a correct hexadecimal form''"

definition loopback_script :: "string \<Rightarrow> (nat \<Rightarrow> sysenv) \<Rightarrow> string list \<Rightarrow> byte list
                                 \<Rightarrow> event list \<times> unit outcome" where
  "loopback_script literal world inputs incoming =
     (if length literal \<noteq> 32 then ([Print length_error], Raises SystemExit)
      else (case fromhex literal of
              Inl _ \<Rightarrow> ([Print hex_error], Raises SystemExit)
            | Inr payload \<Rightarrow>
                bind_io (main payload world inputs incoming) (\<lambda>output_bytes.
                  ([Print (''Received data: '' @ [CHR 0x09, CHR 0x09] @ hex output_bytes),
                    Print ([CHR 0x0A] @ ''Loopback test status: '' @ [CHR 0x09]),
                    Print (if literal = hex output_bytes then ''SUCCES'' else ''FAIL'')],
                   Returns ()))))"

section \<open>Environments used in the examples\<close>

text \<open>
  A Linux host with one serial adapter, one with three, one where the three adapters are
  plugged in only after the first enumeration, and one where no adapter is ever plugged in.
\<close>

definition one_port :: "nat \<Rightarrow> sysenv" where
  "one_port k = \<lparr>platform = ''linux'', glob = (\<lambda>_. [''/dev/ttyUSB0'']), openable = (\<lambda>_. True)\<rparr>"

definition three_ports :: "nat \<Rightarrow> sysenv" where
  "three_ports k =
     \<lparr>platform = ''linux'',
      glob = (\<lambda>_. [''/dev/ttyUSB0'', ''/dev/ttyUSB1'', ''/dev/ttyUSB2'']),
      openable = (\<lambda>_. True)\<rparr>"

definition plugged_late :: "nat \<Rightarrow> sysenv" where
  "plugged_late k =
     \<lparr>platform = ''linux'',
      glob = (\<lambda>_. if k = 0 then [] else [''/dev/ttyUSB0'', ''/dev/ttyUSB1'', ''/dev/ttyUSB2'']),
      openable = (\<lambda>_. True)\<rparr>"

definition unplugged :: "nat \<Rightarrow> sysenv" where
  "unplugged k = \<lparr>platform = ''linux'', glob = (\<lambda>_. []), openable = (\<lambda>_. True)\<rparr>"

section \<open>Properties of splitting\<close>

lemma py_slice_window:
  "0 < k \<Longrightarrow> i \<le> length xs \<Longrightarrow>
     py_slice xs (int i) (int i + int k) = take k (drop i xs)"
proof -
  assume k: "0 < k" and i: "i \<le> length xs"
  have lo: "py_clamp (length xs) (int i) = i"
    using i by (simp add: py_clamp_def)
  have hi: "py_clamp (length xs) (int i + int k) = min (length xs) (i + k)"
    by (simp add: py_clamp_def nat_add_distrib)
  have "take (min (length xs) (i + k) - i) (drop i xs) = take k (drop i xs)"
    using i by (simp add: min_def)
  then show ?thesis
    by (simp add: py_slice_def lo hi)
qed

lemma range_slices_chunks_of:
  "0 < k \<Longrightarrow> 0 \<le> i \<Longrightarrow> i \<le> int (length xs) \<Longrightarrow>
     map (\<lambda>j. py_slice xs j (j + int k)) (py_range i (int (length xs)) (int k))
       = chunks_of k (drop (nat i) xs)"
proof (induction i "int (length xs)" "int k" rule: py_range.induct)
  case (1 i)
  show ?case
  proof (cases "i < int (length xs)")
    case True
    have sl: "py_slice xs i (i + int k) = take k (drop (nat i) xs)"
      using py_slice_window [of k "nat i" xs] "1.prems" by simp
    have ne: "drop (nat i) xs \<noteq> []"
      using True "1.prems" by simp
    show ?thesis
    proof (cases "i + int k \<le> int (length xs)")
      case le: True
      have "map (\<lambda>j. py_slice xs j (j + int k)) (py_range (i + int k) (int (length xs)) (int k))
              = chunks_of k (drop (nat (i + int k)) xs)"
        using "1.hyps"(1) "1.prems" True le by simp
      moreover have "nat (i + int k) = k + nat i"
        using "1.prems" by simp
      ultimately show ?thesis
        using True "1.prems" sl ne
        by (subst py_range.simps, subst chunks_of.simps) (simp del: drop_eq_Nil)
    next
      case gt: False
      have r: "py_range (i + int k) (int (length xs)) (int k) = []"
        using gt by (subst py_range.simps) simp
      have d: "drop k (drop (nat i) xs) = []"
        using gt "1.prems" by simp
      have c: "chunks_of k [] = []"
        by (subst chunks_of.simps) simp
      show ?thesis
        using True "1.prems" sl r ne
        by (subst py_range.simps, subst chunks_of.simps) (simp add: d c del: drop_drop drop_eq_Nil)
    qed
  next
    case False
    then have "drop (nat i) xs = []"
      using "1.prems" by simp
    then show ?thesis
      using False "1.prems"
      by (subst py_range.simps, subst chunks_of.simps) simp
  qed
qed

lemma divide_chunks_chunks_of:
  "0 < k \<Longrightarrow> divide_chunks data (int k) = Inr (chunks_of k data)"
  using range_slices_chunks_of [of k 0 data] by (simp add: divide_chunks_def)

lemma chunks_of_Nil: "chunks_of k [] = []"
  by (subst chunks_of.simps) simp

lemma chunks_of_Cons:
  "0 < k \<Longrightarrow> xs \<noteq> [] \<Longrightarrow> chunks_of k xs = take k xs # chunks_of k (drop k xs)"
  by (subst chunks_of.simps) simp

lemma chunks_of_Nil_iff: "0 < k \<Longrightarrow> chunks_of k xs = [] \<longleftrightarrow> xs = []"
  by (subst chunks_of.simps) simp

lemma concat_chunks_of: "0 < k \<Longrightarrow> concat (chunks_of k xs) = xs"
proof (induction k xs rule: chunks_of.induct)
  case (1 k xs)
  then show ?case
    by (cases "xs = []") (simp_all add: chunks_of_Nil chunks_of_Cons)
qed

lemma ceil_div_step: "0 < k \<Longrightarrow> 0 < n \<Longrightarrow> (n + k - 1) div k = Suc ((n - 1) div k)"
proof -
  assume k: "0 < k" and "0 < n"
  then obtain m where n: "n = Suc m"
    by (cases n) auto
  show ?thesis
    using k div_add_self2 [of k m] by (simp add: n)
qed

lemma length_chunks_of: "0 < k \<Longrightarrow> length (chunks_of k xs) = (length xs + k - 1) div k"
proof (induction k xs rule: chunks_of.induct)
  case (1 k xs)
  show ?case
  proof (cases "xs = []")
    case True
    then show ?thesis
      using "1.prems" by (simp add: chunks_of_Nil)
  next
    case False
    then have ih: "length (chunks_of k (drop k xs)) = (length (drop k xs) + k - 1) div k"
      using "1.IH" "1.prems" by simp
    have total: "(length xs + k - 1) div k = Suc ((length xs - 1) div k)"
      using ceil_div_step [of k "length xs"] False "1.prems" by simp
    have rest: "(length (drop k xs) + k - 1) div k = (length xs - 1) div k"
    proof (cases "k \<le> length xs")
      case True
      then have "length (drop k xs) + k - 1 = length xs - 1"
        by simp
      then show ?thesis
        by simp
    next
      case short: False
      then show ?thesis
        using "1.prems" by simp
    qed
    have "length (chunks_of k xs) = Suc (length (chunks_of k (drop k xs)))"
      using False "1.prems" by (simp add: chunks_of_Cons)
    then show ?thesis
      by (simp only: ih total rest)
  qed
qed

lemma nth_chunks_of:
  "0 < k \<Longrightarrow> j < length (chunks_of k xs) \<Longrightarrow> chunks_of k xs ! j = take k (drop (k * j) xs)"
proof (induction k xs arbitrary: j rule: chunks_of.induct)
  case (1 k xs)
  from "1.prems" have ne: "xs \<noteq> []"
    by (auto simp: chunks_of_Nil)
  have unfold: "chunks_of k xs = take k xs # chunks_of k (drop k xs)"
    using ne "1.prems"(1) by (rule chunks_of_Cons [rotated])
  show ?case
  proof (cases j)
    case 0
    then show ?thesis
      by (simp add: unfold)
  next
    case (Suc j')
    then have "j' < length (chunks_of k (drop k xs))"
      using "1.prems"(2) by (simp add: unfold)
    then have "chunks_of k (drop k xs) ! j' = take k (drop (k * j') (drop k xs))"
      using "1.IH" ne "1.prems"(1) by simp
    then show ?thesis
      using Suc by (simp add: unfold add.commute)
  qed
qed

lemma chunk_lengths:
  "0 < k \<Longrightarrow> c \<in> set (chunks_of k xs) \<Longrightarrow> 1 \<le> length c \<and> length c \<le> k"
proof (induction k xs rule: chunks_of.induct)
  case (1 k xs)
  from "1.prems" have ne: "xs \<noteq> []"
    by (auto simp: chunks_of_Nil)
  have unfold: "chunks_of k xs = take k xs # chunks_of k (drop k xs)"
    using ne "1.prems"(1) by (rule chunks_of_Cons [rotated])
  from "1.prems"(2) have "c = take k xs \<or> c \<in> set (chunks_of k (drop k xs))"
    by (simp add: unfold)
  then show ?case
  proof
    assume "c = take k xs"
    then show ?thesis
      using ne "1.prems"(1) by (cases xs) auto
  next
    assume "c \<in> set (chunks_of k (drop k xs))"
    then show ?thesis
      using "1.IH" ne "1.prems"(1) by simp
  qed
qed

lemma butlast_chunks_full:
  "0 < k \<Longrightarrow> c \<in> set (butlast (chunks_of k xs)) \<Longrightarrow> length c = k"
proof (induction k xs rule: chunks_of.induct)
  case (1 k xs)
  from "1.prems" have ne: "xs \<noteq> []"
    by (auto simp: chunks_of_Nil)
  have unfold: "chunks_of k xs = take k xs # chunks_of k (drop k xs)"
    using ne "1.prems"(1) by (rule chunks_of_Cons [rotated])
  show ?case
  proof (cases "drop k xs = []")
    case True
    then show ?thesis
      using "1.prems"(2) by (simp add: unfold chunks_of_Nil del: drop_eq_Nil)
  next
    case rest: False
    then have full: "length (take k xs) = k"
      by simp
    have "chunks_of k (drop k xs) \<noteq> []"
      using rest "1.prems"(1) by (simp add: chunks_of_Nil_iff del: drop_eq_Nil)
    then have "c = take k xs \<or> c \<in> set (butlast (chunks_of k (drop k xs)))"
      using "1.prems"(2) by (simp add: unfold)
    then show ?thesis
      using full "1.IH" ne "1.prems"(1) by auto
  qed
qed

section \<open>C1: the split\<close>

text \<open>
  C1. For every payload \<open>P\<close>, \<open>divide_chunks P 16\<close> returns (and does not raise) an ordered
  list of contiguous slices of \<open>P\<close>: chunk \<open>j\<close> is the 16-byte window of \<open>P\<close> that starts at
  offset \<open>16 * j\<close>, and the chunks concatenated give \<open>P\<close> back. Every chunk but the last has
  length exactly 16, the last has a length from 1 to 16, there are no chunks exactly when \<open>P\<close>
  is empty, and the number of chunks is the ceiling of \<open>length P / 16\<close>.
\<close>

theorem divide_chunks_16:
  "\<exists>cs. divide_chunks P 16 = Inr cs
        \<and> concat cs = P
        \<and> (\<forall>j<length cs. cs ! j = take 16 (drop (16 * j) P))
        \<and> (\<forall>c\<in>set (butlast cs). length c = 16)
        \<and> (cs \<noteq> [] \<longrightarrow> 1 \<le> length (last cs) \<and> length (last cs) \<le> 16)
        \<and> (cs = [] \<longleftrightarrow> P = [])
        \<and> length cs = (length P + 15) div 16"
proof -
  let ?cs = "chunks_of 16 P"
  have run: "divide_chunks P 16 = Inr ?cs"
    using divide_chunks_chunks_of [of 16 P] by simp
  have cat: "concat ?cs = P"
    by (simp add: concat_chunks_of)
  have win: "\<forall>j<length ?cs. ?cs ! j = take 16 (drop (16 * j) P)"
    by (simp add: nth_chunks_of)
  have full: "\<forall>c\<in>set (butlast ?cs). length c = 16"
    using butlast_chunks_full [of 16 _ P] by simp
  have lst: "?cs \<noteq> [] \<longrightarrow> 1 \<le> length (last ?cs) \<and> length (last ?cs) \<le> 16"
    using chunk_lengths [of 16 "last ?cs" P] by simp
  have emp: "?cs = [] \<longleftrightarrow> P = []"
    by (simp add: chunks_of_Nil_iff)
  have cnt: "length ?cs = (length P + 15) div 16"
    using length_chunks_of [of 16 P] by simp
  from run cat win full lst emp cnt show ?thesis
    by blast
qed

theorem divide_chunks_16_witness:
  "divide_chunks [1, 2, 3, 4, 5, 6, 7, 8, 9, 10, 11, 12, 13, 14, 15, 16, 17] 16
     = Inr [[1, 2, 3, 4, 5, 6, 7, 8, 9, 10, 11, 12, 13, 14, 15, 16], [17]]
   \<and> (0::nat) < length [[1, 2, 3, 4, 5, 6, 7, 8, 9, 10, 11, 12, 13, 14, 15, 16], [17::byte]]
   \<and> [1, 2, 3, 4, 5, 6, 7, 8, 9, 10, 11, 12, 13, 14, 15, 16]
        \<in> set (butlast [[1, 2, 3, 4, 5, 6, 7, 8, 9, 10, 11, 12, 13, 14, 15, 16], [17::byte]])
   \<and> [[1, 2, 3, 4, 5, 6, 7, 8, 9, 10, 11, 12, 13, 14, 15, 16], [17::byte]] \<noteq> []
   \<and> length (last [[1, 2, 3, 4, 5, 6, 7, 8, 9, 10, 11, 12, 13, 14, 15, 16], [17::byte]]) = 1
   \<and> length [[1, 2, 3, 4, 5, 6, 7, 8, 9, 10, 11, 12, 13, 14, 15, 16], [17::byte]]
        = (length [1, 2, 3, 4, 5, 6, 7, 8, 9, 10, 11, 12, 13, 14, 15, 16, 17::byte] + 15) div 16"
proof -
  let ?P = "[1, 2, 3, 4, 5, 6, 7, 8, 9, 10, 11, 12, 13, 14, 15, 16, 17] :: byte list"
  from divide_chunks_16 [of ?P] obtain cs where
    run: "divide_chunks ?P 16 = Inr cs" and cat: "concat cs = ?P"
    and win: "\<forall>j<length cs. cs ! j = take 16 (drop (16 * j) ?P)"
    and cnt: "length cs = (length ?P + 15) div 16"
    by blast
  from cnt have len: "length cs = 2"
    by simp
  then obtain a b where cs: "cs = [a, b]"
    by (cases cs; cases "tl cs"; cases "tl (tl cs)") auto
  from win len have "cs ! 0 = take 16 (drop (16 * 0) ?P)" and "cs ! 1 = take 16 (drop (16 * 1) ?P)"
    by simp_all
  then have "a = [1, 2, 3, 4, 5, 6, 7, 8, 9, 10, 11, 12, 13, 14, 15, 16]" and "b = [17]"
    by (simp_all add: cs)
  with run cs show ?thesis
    by simp
qed

section \<open>Properties of the write path\<close>

lemma py_range_unit: "py_range i stop 1 = map (\<lambda>j. i + int j) [0..<nat (stop - i)]"
proof (induction i stop "1::int" rule: py_range.induct)
  case (1 i stop)
  show ?case
  proof (cases "i < stop")
    case True
    then obtain m where m: "nat (stop - i) = Suc m"
      by (cases "nat (stop - i)") auto
    then have m': "nat (stop - (i + 1)) = m"
      by simp
    have "py_range i stop 1 = i # py_range (i + 1) stop 1"
      using True by (subst py_range.simps) simp
    also have "py_range (i + 1) stop 1 = map (\<lambda>j. i + 1 + int j) [0..<m]"
      using "1.hyps"(1) True m' by simp
    also have "i # map (\<lambda>j. i + 1 + int j) [0..<m] = map (\<lambda>j. i + int j) [0..<Suc m]"
      by (simp add: map_upt_Suc del: upt_Suc)
    finally show ?thesis
      by (simp only: m)
  next
    case False
    then show ?thesis
      by (subst py_range.simps) simp
  qed
qed

lemma py_range_from_0: "py_range 0 (int n) 1 = map int [0..<n]"
  by (simp add: py_range_unit)

lemma write_chunk_empty:
  "write_chunk [] port baudrate = ([Open port baudrate, Sleep_ms 100, Close], Raises UnboundLocalError)"
  by (simp add: write_chunk_def py_range_unit)

lemma write_chunk_nonempty:
  assumes "chunk \<noteq> []"
  shows "write_chunk chunk port baudrate =
    ([Open port baudrate, Sleep_ms 100] @ map (\<lambda>b. Write (Elem b)) chunk
       @ replicate (16 - length chunk) (Write (Bytes [0x30])) @ [Close], Returns ())"
proof -
  let ?k = "length chunk"
  have idx: "py_range 0 (int ?k) 1 = map int [0..<?k]"
    by (rule py_range_from_0)
  have ne: "map int [0..<?k] \<noteq> []"
    using assms by simp
  have "map (\<lambda>b. Write (Elem b)) (map ((!) chunk) [0..<?k]) = map (\<lambda>b. Write (Elem b)) chunk"
    by (simp only: map_nth)
  then have body: "map (\<lambda>i. Write (Elem (chunk ! nat i))) (map int [0..<?k]) = map (\<lambda>b. Write (Elem b)) chunk"
    by (simp add: o_def)
  have lst: "last (map int [0..<?k]) + 1 = int ?k"
    using assms by (cases chunk rule: rev_cases) simp_all
  have pad: "map (\<lambda>_. Write (Bytes [0x30])) (py_range (int ?k) 16 1) = replicate (16 - ?k) (Write (Bytes [0x30]))"
    by (simp add: py_range_unit map_replicate_const)
  show ?thesis
    unfolding write_chunk_def Let_def idx body using ne by (simp only: lst pad if_False)
qed

lemma on_wire_append: "on_wire tx (xs @ ys) = on_wire tx xs @ on_wire tx ys"
  by (simp add: on_wire_def)

lemma on_wire_Nil: "on_wire tx [] = []"
  by (simp add: on_wire_def)

lemma on_wire_Cons:
  "on_wire tx (e # tr) = (case e of Write a \<Rightarrow> tx a | _ \<Rightarrow> []) @ on_wire tx tr"
  by (simp add: on_wire_def)

lemma on_wire_int_writes:
  "on_wire to_bytes (map (\<lambda>b. Write (Elem b)) bs) = concat (map (\<lambda>b. replicate (unat b) 0) bs)"
  by (induction bs) (simp_all add: on_wire_def)

lemma on_wire_fill: "on_wire to_bytes (replicate n (Write (Bytes [c]))) = replicate n c"
  by (induction n) (simp_all add: on_wire_def)

lemma on_wire_write_chunk:
  assumes "chunk \<noteq> []"
  shows "on_wire to_bytes (fst (write_chunk chunk port baudrate))
           = concat (map (\<lambda>b. replicate (unat b) 0) chunk) @ replicate (16 - length chunk) 0x30"
  by (simp add: write_chunk_nonempty [OF assms] on_wire_append on_wire_Cons on_wire_Nil
      on_wire_int_writes on_wire_fill)

section \<open>C2: the frame written for one chunk\<close>

text \<open>
  C2 does not hold of the program. For a chunk of length \<open>k\<close> from 1 to 16 the write calls
  are counted as the claim says (lemma \<open>write_chunk_nonempty\<close>: one call per chunk byte, in
  order, then \<open>16 - k\<close> calls given the filler \<^verbatim>\<open>b'0'\<close>), but the calls of the first
  loop are given \<^verbatim>\<open>chunk[i]\<close>, an \<^verbatim>\<open>int\<close>, and not a one-byte \<^verbatim>\<open>bytes\<close> object: the
  library transmits \<open>n\<close> zero bytes for the value \<open>n\<close> (lemma \<open>on_wire_write_chunk\<close>).
  For the chunk \<^verbatim>\<open>b'ABC'\<close> the wire carries 65 + 66 + 67 zero bytes and then the thirteen
  filler bytes, 211 bytes in all, and not the 16-byte frame \<^verbatim>\<open>b'ABC0000000000000'\<close>.
\<close>

theorem write_chunk_int_argument:
  "write_chunk [0x41, 0x42, 0x43] ''COM1'' 230400
     = ([Open ''COM1'' 230400, Sleep_ms 100, Write (Elem 0x41), Write (Elem 0x42), Write (Elem 0x43)]
          @ replicate 13 (Write (Bytes [0x30])) @ [Close],
        Returns ())
   \<and> on_wire to_bytes (fst (write_chunk [0x41, 0x42, 0x43] ''COM1'' 230400))
       = replicate 65 0 @ replicate 66 0 @ replicate 67 0 @ replicate 13 0x30
   \<and> length (on_wire to_bytes (fst (write_chunk [0x41, 0x42, 0x43] ''COM1'' 230400))) = 211
   \<and> on_wire to_bytes (fst (write_chunk [0x41, 0x42, 0x43] ''COM1'' 230400))
       \<noteq> [0x41, 0x42, 0x43, 0x30, 0x30, 0x30, 0x30, 0x30, 0x30, 0x30, 0x30, 0x30, 0x30,
          0x30, 0x30, 0x30]"
proof -
  let ?c = "[0x41, 0x42, 0x43] :: byte list"
  have ne: "?c \<noteq> []"
    by simp
  have run: "write_chunk ?c ''COM1'' 230400
     = ([Open ''COM1'' 230400, Sleep_ms 100, Write (Elem 0x41), Write (Elem 0x42), Write (Elem 0x43)]
          @ replicate 13 (Write (Bytes [0x30])) @ [Close],
        Returns ())"
    by (simp add: write_chunk_nonempty [OF ne])
  have wire: "on_wire to_bytes (fst (write_chunk ?c ''COM1'' 230400))
       = replicate 65 0 @ replicate 66 0 @ replicate 67 0 @ replicate 13 0x30"
    by (simp add: on_wire_write_chunk [OF ne])
  have len: "length (on_wire to_bytes (fst (write_chunk ?c ''COM1'' 230400))) = 211"
    by (simp only: wire length_append length_replicate)
  have "length ([0x41, 0x42, 0x43, 0x30, 0x30, 0x30, 0x30, 0x30, 0x30, 0x30, 0x30, 0x30, 0x30,
          0x30, 0x30, 0x30] :: byte list) = 16"
    by simp
  with len have differs: "on_wire to_bytes (fst (write_chunk ?c ''COM1'' 230400))
       \<noteq> [0x41, 0x42, 0x43, 0x30, 0x30, 0x30, 0x30, 0x30, 0x30, 0x30, 0x30, 0x30, 0x30,
          0x30, 0x30, 0x30]"
    by (metis numeral_eq_iff semiring_norm(88) num.distinct)
  from run wire len differs show ?thesis
    by blast
qed

section \<open>Properties of the text encoding\<close>


lemma encode_error: "encode t = Inl e \<Longrightarrow> e = UnicodeEncodeError"
  by (induction t arbitrary: e) (auto simp: encode_cp_def split: sum.splits if_splits)

lemma push_cp_error: "push_cp c r = Inl e \<Longrightarrow> r = Inl e"
  by (cases r) simp_all

lemma decode_error: "decode bs = Inl e \<Longrightarrow> e = UnicodeDecodeError"
proof (induction bs rule: decode.induct)
  case 1
  then show ?case by simp
next
  case (2 b bs)
  show ?case
  proof (cases "decode_one b bs")
    case None
    then show ?thesis using "2.prems" by simp
  next
    case (Some p)
    obtain c r where p: "p = (c, r)"
      by (cases p)
    have "push_cp c (decode r) = Inl e"
      using "2.prems" Some p by simp
    then have "decode r = Inl e"
      by (rule push_cp_error)
    then show ?thesis
      using "2.IH" Some p by simp
  qed
qed

lemma decode_each_error: "decode_each fs = Inl e \<Longrightarrow> e = UnicodeDecodeError"
proof (induction fs arbitrary: e)
  case Nil
  then show ?case by simp
next
  case (Cons f fs)
  show ?case
  proof (cases "decode f")
    case (Inl x)
    then show ?thesis using Cons.prems decode_error [of f x] by simp
  next
    case (Inr t)
    then show ?thesis using Cons by (cases "decode_each fs") simp_all
  qed
qed


lemma decode_each_fails:
  "f \<in> set fs \<Longrightarrow> decode f = Inl e \<Longrightarrow> decode_each fs = Inl UnicodeDecodeError"
proof (induction fs)
  case Nil
  then show ?case by simp
next
  case (Cons a fs)
  show ?case
  proof (cases "decode a")
    case (Inl x)
    then show ?thesis using decode_error [of a x] by simp
  next
    case (Inr t)
    then have "f \<in> set fs" using Cons.prems by auto
    then have "decode_each fs = Inl UnicodeDecodeError" using Cons by simp
    then show ?thesis using Inr by simp
  qed
qed

section \<open>Properties of the transfers of one round\<close>

lemma write_chunk_returns:
  "chunk \<noteq> [] \<Longrightarrow> snd (write_chunk chunk port baudrate) = Returns ()"
  by (simp add: write_chunk_nonempty)

lemma read_chunk_outcome: "snd (read_chunk port baudrate incoming) \<noteq> Raises e"
  by (simp add: read_chunk_def)

lemma bind_io_Raises:
  "snd (bind_io m f) = Raises e \<Longrightarrow>
     snd m = Raises e \<or> (\<exists>x. snd m = Returns x \<and> snd (f x) = Raises e)"
  by (cases m; cases "snd m") (auto split: prod.splits)

lemma bind_io_no_raise:
  "snd m \<noteq> Raises e \<Longrightarrow> (\<And>x. snd (f x) \<noteq> Raises e) \<Longrightarrow> snd (bind_io m f) \<noteq> Raises e"
proof -
  assume m: "snd m \<noteq> Raises e" and f: "\<And>x. snd (f x) \<noteq> Raises e"
  obtain tr r where p: "m = (tr, r)"
    by (cases m)
  show ?thesis
  proof (cases r)
    case (Returns x)
    obtain t2 r2 where fx: "f x = (t2, r2)"
      by (cases "f x")
    with f [of x] have "r2 \<noteq> Raises e"
      by simp
    with p Returns fx show ?thesis
      by simp
  next
    case (Raises e')
    with m p show ?thesis
      by simp
  next
    case Blocks
    with p show ?thesis
      by simp
  qed
qed

lemma transfer_each_no_raise:
  "[] \<notin> set chunks \<Longrightarrow> snd (transfer_each port baudrate chunks incoming) \<noteq> Raises e"
proof (induction chunks arbitrary: incoming)
  case Nil
  then show ?case by simp
next
  case (Cons c chunks)
  have "c \<noteq> []"
    using Cons.prems by auto
  then have w: "snd (write_chunk c port baudrate) \<noteq> Raises e"
    by (simp add: write_chunk_nonempty)
  have rest: "\<And>inc. snd (transfer_each port baudrate chunks inc) \<noteq> Raises e"
    using Cons by simp
  show ?case
    apply (simp only: transfer_each.simps)
    apply (rule bind_io_no_raise)
     apply (rule w)
    apply (rule bind_io_no_raise)
     apply (rule read_chunk_outcome)
    apply (rule bind_io_no_raise)
     apply (rule rest)
    apply simp
    done
qed

lemma bind_io_Returns:
  "bind_io m f = (tr, Returns y) \<Longrightarrow>
     \<exists>t1 x t2. m = (t1, Returns x) \<and> f x = (t2, Returns y) \<and> tr = t1 @ t2"
  by (cases m; cases "snd m") (auto split: prod.splits)





section \<open>Properties of one round of the session loop\<close>

lemma bind_io_unit: "bind_io ([], Returns x) f = f x"
  by (cases "f x") simp

lemma divide_chunks_16_eq: "divide_chunks bs 16 = Inr (chunks_of 16 bs)"
  using divide_chunks_chunks_of [of 16 bs] by simp

lemma chunks_of_16_nonempty: "[] \<notin> set (chunks_of 16 bs)"
  using chunk_lengths [of 16 "[]" bs] by auto

lemma session_round_encoded:
  "encode input_text = Inr bs \<Longrightarrow>
     session_round port baudrate incoming input_text =
       bind_io (transfer_each port baudrate (chunks_of 16 bs) incoming) (\<lambda>answers.
       bind_io (lift_io (decode_each answers)) (\<lambda>texts.
         ([], Returns \<lparr>input_bytes = bs, input_chunks = chunks_of 16 bs, output_chunks = answers,
                       output_text = take (length input_text) (concat texts)\<rparr>)))"
  by (simp add: session_round_def bind_io_unit divide_chunks_16_eq)

lemma session_round_not_encoded:
  "encode input_text = Inl e \<Longrightarrow>
     session_round port baudrate incoming input_text = ([], Raises UnicodeEncodeError)"
  using encode_error [of input_text e] by (simp add: session_round_def)


lemma session_round_no_unbound:
  "snd (session_round port baudrate incoming input_text) \<noteq> Raises UnboundLocalError"
proof (cases "encode input_text")
  case (Inl e)
  then show ?thesis
    by (simp add: session_round_not_encoded)
next
  case (Inr bs)
  have dec: "\<And>answers. snd (bind_io (lift_io (decode_each answers)) (\<lambda>texts.
         ([], Returns \<lparr>input_bytes = bs, input_chunks = chunks_of 16 bs, output_chunks = answers,
                       output_text = take (length input_text) (concat texts)\<rparr>)))
       \<noteq> Raises UnboundLocalError"
  proof -
    fix answers
    show "snd (bind_io (lift_io (decode_each answers)) (\<lambda>texts.
         ([], Returns \<lparr>input_bytes = bs, input_chunks = chunks_of 16 bs, output_chunks = answers,
                       output_text = take (length input_text) (concat texts)\<rparr>)))
       \<noteq> Raises UnboundLocalError"
      using decode_each_error [of answers] by (cases "decode_each answers") auto
  qed
  show ?thesis
    unfolding session_round_encoded [OF Inr]
    by (rule bind_io_no_raise [OF transfer_each_no_raise [OF chunks_of_16_nonempty] dec])
qed

lemma session_round_decode_fails:
  assumes enc: "encode input_text = Inr bs"
    and tr: "transfer_each port baudrate (chunks_of 16 bs) incoming = (tr, Returns answers)"
    and bad: "f \<in> set answers" "decode f = Inl e"
  shows "session_round port baudrate incoming input_text = (tr, Raises UnicodeDecodeError)"
proof -
  have "decode_each answers = Inl UnicodeDecodeError"
    using bad by (rule decode_each_fails)
  then show ?thesis
    by (simp add: session_round_encoded [OF enc] tr)
qed



section \<open>C9: the empty chunk\<close>

text \<open>
  C9. Called with an empty chunk, \<open>write_chunk\<close> opens the port, sleeps, issues no write call
  at all and raises \<^verbatim>\<open>UnboundLocalError\<close> (the padding loop reads the loop variable the
  first loop never bound) after the port is closed. The session loop cannot reach this:
  \<open>divide_chunks P 16\<close> returns chunks none of which is empty, the empty payload gives no
  chunk at all, and a round of the session loop never ends in \<^verbatim>\<open>UnboundLocalError\<close>.
\<close>

theorem write_chunk_empty_unreachable:
  "write_chunk [] port baudrate
     = ([Open port baudrate, Sleep_ms 100, Close], Raises UnboundLocalError)
   \<and> on_wire tx (fst (write_chunk [] port baudrate)) = []
   \<and> (\<exists>chunks. divide_chunks P 16 = Inr chunks \<and> [] \<notin> set chunks)
   \<and> divide_chunks [] 16 = Inr []
   \<and> snd (session_round port baudrate incoming input_text) \<noteq> Raises UnboundLocalError"
proof -
  have 1: "write_chunk [] port baudrate
     = ([Open port baudrate, Sleep_ms 100, Close], Raises UnboundLocalError)"
    by (rule write_chunk_empty)
  have 2: "on_wire tx (fst (write_chunk [] port baudrate)) = []"
    by (simp add: 1 on_wire_def)
  have 3: "\<exists>chunks. divide_chunks P 16 = Inr chunks \<and> [] \<notin> set chunks"
    using divide_chunks_16_eq [of P] chunks_of_16_nonempty [of P] by blast
  have 4: "divide_chunks [] 16 = Inr []"
    by (simp add: divide_chunks_16_eq chunks_of_Nil)
  from 1 2 3 4 session_round_no_unbound show ?thesis
    by blast
qed

section \<open>C7: reconstruction of the text\<close>




section \<open>C10: decoding the echoed frames\<close>

text \<open>
  C10. The first half holds: each 16-byte response is decoded as UTF-8 with strict error
  handling, and if the transfers of a round all return and one of the responses is not
  well-formed UTF-8, the round raises \<^verbatim>\<open>UnicodeDecodeError\<close> and produces no output
  (lemma \<open>session_round_decode_fails\<close>). The second half does not hold of the program, for
  the reason C2 fails: \<open>write_chunk\<close> gives the library the \<^verbatim>\<open>int\<close> \<^verbatim>\<open>chunk[i]\<close>, so the
  frame on the wire does not start with the bytes of the text. For the ASCII text
  \<^verbatim>\<open>hi\<close> the wire carries 104 + 105 zero bytes before the fourteen filler bytes; a device
  that echoes this verbatim answers the 16-byte read with sixteen zero bytes, which decode,
  and the reconstructed text is two NUL characters, not \<^verbatim>\<open>hi\<close>.
\<close>

theorem session_round_echo_int_argument:
  "verbatim_echo to_bytes ''COM1'' 230400 [0x68, 0x69]
     = [replicate 104 0 @ replicate 105 0 @ replicate 14 0x30]
   \<and> snd (session_round ''COM1'' 230400 (verbatim_echo to_bytes ''COM1'' 230400 [0x68, 0x69])
            [0x68, 0x69])
       = Returns \<lparr>input_bytes = [0x68, 0x69], input_chunks = [[0x68, 0x69]],
           output_chunks = [[0, 0, 0, 0, 0, 0, 0, 0, 0, 0, 0, 0, 0, 0, 0, 0]],
           output_text = [0, 0]\<rparr>
   \<and> decode [0, 0, 0, 0, 0, 0, 0, 0, 0, 0, 0, 0, 0, 0, 0, 0]
       = Inr [0, 0, 0, 0, 0, 0, 0, 0, 0, 0, 0, 0, 0, 0, 0, 0]
   \<and> snd (session_round ''COM1'' 230400
            [[0xFF, 0xFF, 0xFF, 0xFF, 0xFF, 0xFF, 0xFF, 0xFF, 0xFF, 0xFF, 0xFF, 0xFF, 0xFF, 0xFF, 0xFF, 0xFF]]
            [0x68, 0x69]) = Raises UnicodeDecodeError"
proof -
  have echo: "verbatim_echo to_bytes ''COM1'' 230400 [0x68, 0x69]
     = [replicate 104 0 @ replicate 105 0 @ replicate 14 0x30]"
    by code_simp
  have run: "snd (session_round ''COM1'' 230400 (verbatim_echo to_bytes ''COM1'' 230400 [0x68, 0x69])
            [0x68, 0x69])
       = Returns \<lparr>input_bytes = [0x68, 0x69], input_chunks = [[0x68, 0x69]],
           output_chunks = [[0, 0, 0, 0, 0, 0, 0, 0, 0, 0, 0, 0, 0, 0, 0, 0]],
           output_text = [0, 0]\<rparr>"
    by code_simp
  have dec: "decode [0, 0, 0, 0, 0, 0, 0, 0, 0, 0, 0, 0, 0, 0, 0, 0]
       = Inr [0, 0, 0, 0, 0, 0, 0, 0, 0, 0, 0, 0, 0, 0, 0, 0]"
    by code_simp
  have bad: "snd (session_round ''COM1'' 230400
            [[0xFF, 0xFF, 0xFF, 0xFF, 0xFF, 0xFF, 0xFF, 0xFF, 0xFF, 0xFF, 0xFF, 0xFF, 0xFF, 0xFF, 0xFF, 0xFF]]
            [0x68, 0x69]) = Raises UnicodeDecodeError"
    by code_simp
  from echo run dec bad show ?thesis
    by blast
qed

section \<open>Properties of the console, the selector and the self-test\<close>

lemmas eval_simps = hex_value_def ascii_space_def show_int_def show_nat.simps digit_char_def
  hex_def hex_char_def input_data_def serial_ports_def startswith_def py_int_def int_space_def
  digit_value_def py_index_def menu_lines_def no_port_prompt_def enumerate_eq_zip
  loopback_script_def main_def resolve_port_def resolve_baudrate_def DEFAULT_PORT_def
  DEFAULT_BAUDRATE_def loopback_serial_port_menu_def serial_port_menu_def exchange_def
  length_error_def hex_error_def one_port_def three_ports_def plugged_late_def

lemma choose_port_not_int:
  "py_int line = None \<Longrightarrow>
     choose_port ports (line # rest) =
       bind_io (menu_lines ports @ [Input [], Print ''Wrong reponse type, try again !''], Returns ())
         (\<lambda>_. choose_port ports rest)"
  by simp

lemma choose_port_in_range:
  "py_int line = Some i \<Longrightarrow> 0 \<le> i \<Longrightarrow> i < int (length ports) \<Longrightarrow>
     choose_port ports (line # rest) = (menu_lines ports @ [Input []], Returns (ports ! nat i, rest))"
  by (simp add: py_index_def)

lemma choose_port_from_end:
  "py_int line = Some i \<Longrightarrow> - int (length ports) \<le> i \<Longrightarrow> i < 0 \<Longrightarrow>
     choose_port ports (line # rest)
       = (menu_lines ports @ [Input []], Returns (ports ! nat (int (length ports) + i), rest))"
  by (simp add: py_index_def)

lemma choose_port_out_of_range:
  "py_int line = Some i \<Longrightarrow> int (length ports) \<le> i \<or> i < - int (length ports) \<Longrightarrow>
     choose_port ports (line # rest) =
       bind_io (menu_lines ports
                  @ [Input [], Print (show_int i @ '' is out of range, try again !'')], Returns ())
         (\<lambda>_. choose_port ports rest)"
  by (auto simp: py_index_def)

lemma loopback_script_wrong_length:
  "length literal \<noteq> 32 \<Longrightarrow>
     loopback_script literal world inputs incoming = ([Print length_error], Raises SystemExit)"
  by (simp add: loopback_script_def)

lemma loopback_script_not_hex:
  "length literal = 32 \<Longrightarrow> fromhex literal = Inl e \<Longrightarrow>
     loopback_script literal world inputs incoming = ([Print hex_error], Raises SystemExit)"
  by (simp add: loopback_script_def)

lemma fromhex_rejects:
  "c \<in> set s \<Longrightarrow> hex_value c = None \<Longrightarrow> \<not> ascii_space c \<Longrightarrow> fromhex s = Inl ValueError"
proof (induction s rule: fromhex.induct)
  case 1
  then show ?case by simp
next
  case (2 a)
  then show ?case by simp
next
  case (3 a d cs)
  show ?case
  proof (cases "ascii_space a")
    case True
    then have "c \<in> set (d # cs)"
      using "3.prems" by auto
    then show ?thesis
      using True "3.IH"(1) "3.prems" by simp
  next
    case False
    show ?thesis
    proof (cases "hex_value a")
      case None
      then show ?thesis using False by simp
    next
      case h: (Some h)
      show ?thesis
      proof (cases "hex_value d")
        case None
        then show ?thesis using False h by simp
      next
        case l: (Some l)
        then have "c \<in> set cs"
          using "3.prems" h by auto
        then have "fromhex cs = Inl ValueError"
          using "3.IH"(2) False h l "3.prems" by simp
        then show ?thesis
          using False h l by simp
      qed
    qed
  qed
qed

lemma hex_char_value:
  assumes "n < 16"
  shows "hex_value (hex_char n) = Some n \<and> \<not> ascii_space (hex_char n)"
proof -
  have "n \<in> {0, 1, 2, 3, 4, 5, 6, 7, 8, 9, 10, 11, 12, 13, 14, 15}"
    using assms by simp presburger
  then show ?thesis
    by (elim insertE emptyE) (simp_all add: hex_char_def hex_value_def ascii_space_def)
qed

lemma byte_nibbles: "unat (b :: byte) div 16 < 16 \<and> unat b mod 16 < 16
    \<and> of_nat (unat b div 16 * 16 + unat b mod 16) = b"
proof -
  have "unat b < 256"
    using unsigned_less [of b, where ?'a = nat] by simp
  then show ?thesis
    by simp
qed

lemma fromhex_hex: "fromhex (hex bs) = Inr bs"
proof (induction bs)
  case Nil
  then show ?case by (simp add: hex_def)
next
  case (Cons b bs)
  have split: "hex (b # bs) = hex_char (unat b div 16) # hex_char (unat b mod 16) # hex bs"
    by (simp add: hex_def)
  from byte_nibbles [of b] hex_char_value [of "unat b div 16"] hex_char_value [of "unat b mod 16"]
  show ?case
    by (simp add: split Cons.IH)
qed

lemma hex_inject: "hex xs = hex ys \<Longrightarrow> xs = ys"
proof -
  assume "hex xs = hex ys"
  then have "fromhex (hex xs) = fromhex (hex ys)"
    by simp
  then show ?thesis
    by (simp add: fromhex_hex)
qed

lemma input_data_bytes:
  "length input_data = 32
   \<and> fromhex input_data = Inr [0, 1, 2, 3, 4, 5, 6, 7, 8, 9, 10, 11, 12, 13, 14, 15]
   \<and> hex [0, 1, 2, 3, 4, 5, 6, 7, 8, 9, 10, 11, 12, 13, 14, 15] = input_data"
  by (simp add: input_data_def hex_value_def ascii_space_def hex_def hex_char_def)

lemma loopback_script_verdict:
  assumes "main [0, 1, 2, 3, 4, 5, 6, 7, 8, 9, 10, 11, 12, 13, 14, 15] world inputs incoming
             = (tr, Returns out)"
  shows "loopback_script input_data world inputs incoming
           = (tr @ [Print (''Received data: '' @ [CHR 0x09, CHR 0x09] @ hex out),
                    Print ([CHR 0x0A] @ ''Loopback test status: '' @ [CHR 0x09]),
                    Print (if out = [0, 1, 2, 3, 4, 5, 6, 7, 8, 9, 10, 11, 12, 13, 14, 15]
                           then ''SUCCES'' else ''FAIL'')],
              Returns ())"
proof -
  let ?P = "[0, 1, 2, 3, 4, 5, 6, 7, 8, 9, 10, 11, 12, 13, 14, 15] :: byte list"
  have "input_data = hex out \<longleftrightarrow> out = ?P"
    using input_data_bytes hex_inject [of ?P out] by auto
  then show ?thesis
    using input_data_bytes assms by (simp add: loopback_script_def)
qed

section \<open>C6: the selection menu\<close>

text \<open>
  C6 fails on the code for the negative integers from \<open>-n\<close> to \<open>-1\<close>: the range check is
  the \<^verbatim>\<open>IndexError\<close> of \<^verbatim>\<open>available_ports[resp]\<close>, and a negative index counts from
  the end of the list. With three ports on offer, the answer \<^verbatim>\<open>-1\<close> is outside the
  offered range 0..2, yet the menu prints no out-of-range message and returns the last port,
  in both scripts. (Lemmas \<open>choose_port_not_int\<close>, \<open>choose_port_in_range\<close>,
  \<open>choose_port_out_of_range\<close> and \<open>choose_port_from_end\<close> above state what the menu does
  for every answer.)
\<close>

theorem choose_port_negative_index:
  "py_int ''-1'' = Some (- 1)
   \<and> choose_port [''/dev/ttyUSB0'', ''/dev/ttyUSB1'', ''/dev/ttyUSB2''] [''-1'']
       = (menu_lines [''/dev/ttyUSB0'', ''/dev/ttyUSB1'', ''/dev/ttyUSB2''] @ [Input []],
          Returns (''/dev/ttyUSB2'', []))
   \<and> snd (serial_port_menu three_ports 0 [''-1'']) = Returns (''/dev/ttyUSB2'', [])
   \<and> snd (loopback_serial_port_menu three_ports 0 [''-1'']) = Returns (''/dev/ttyUSB2'', [])"
  by (simp add: eval_simps)

section \<open>C5: a malformed literal\<close>

text \<open>
  C5 fails on the code for a literal of 32 characters that holds white space. The length
  check counts characters, \<^verbatim>\<open>bytes.fromhex\<close> skips white space between bytes, and the
  literal below (two spaces, thirty digits) parses to 15 bytes: the script reports no error,
  opens the port and writes a 15-byte payload. (Lemmas \<open>loopback_script_wrong_length\<close>,
  \<open>loopback_script_not_hex\<close> and \<open>fromhex_rejects\<close> above state the rejections that do
  hold: a literal of any other length, and a literal holding a character that is neither a
  hexadecimal digit nor ASCII white space.)
\<close>

theorem loopback_script_spaced_literal:
  "length ''00 01 02030405060708090a0b0c0d0e'' = 32
   \<and> fromhex ''00 01 02030405060708090a0b0c0d0e''
       = Inr [0, 1, 2, 3, 4, 5, 6, 7, 8, 9, 10, 11, 12, 13, 14]
   \<and> Open ''/dev/ttyUSB0'' 115200
       \<in> set (fst (loopback_script ''00 01 02030405060708090a0b0c0d0e'' one_port []
                     [0, 1, 2, 3, 4, 5, 6, 7, 8, 9, 10, 11, 12, 13, 14, 15]))
   \<and> Write (Bytes [0, 1, 2, 3, 4, 5, 6, 7, 8, 9, 10, 11, 12, 13, 14])
       \<in> set (fst (loopback_script ''00 01 02030405060708090a0b0c0d0e'' one_port []
                     [0, 1, 2, 3, 4, 5, 6, 7, 8, 9, 10, 11, 12, 13, 14, 15]))
   \<and> Print hex_error
       \<notin> set (fst (loopback_script ''00 01 02030405060708090a0b0c0d0e'' one_port []
                     [0, 1, 2, 3, 4, 5, 6, 7, 8, 9, 10, 11, 12, 13, 14, 15]))
   \<and> snd (loopback_script ''00 01 02030405060708090a0b0c0d0e'' one_port []
            [0, 1, 2, 3, 4, 5, 6, 7, 8, 9, 10, 11, 12, 13, 14, 15]) = Returns ()"
  by (simp add: eval_simps)

section \<open>C3: the verdict\<close>

text \<open>
  C3 fails on the code in the word it names: after a verbatim echo of
  \<^verbatim>\<open>000102030405060708090a0b0c0d0e0f\<close> the script's last output is \<^verbatim>\<open>SUCCES\<close>, and
  \<^verbatim>\<open>SUCCESS\<close> is printed nowhere. (The comparison itself is exact: by lemma
  \<open>loopback_script_verdict\<close> above, whenever \<^verbatim>\<open>main\<close> returns, the last output is
  \<^verbatim>\<open>SUCCES\<close> if the bytes received are the 16 bytes of the literal and \<^verbatim>\<open>FAIL\<close>
  otherwise.)
\<close>

theorem loopback_script_echo_verdict:
  "snd (loopback_script input_data one_port [] [0, 1, 2, 3, 4, 5, 6, 7, 8, 9, 10, 11, 12, 13, 14, 15])
     = Returns ()
   \<and> last (fst (loopback_script input_data one_port []
                  [0, 1, 2, 3, 4, 5, 6, 7, 8, 9, 10, 11, 12, 13, 14, 15])) = Print ''SUCCES''
   \<and> Print ''SUCCESS''
       \<notin> set (fst (loopback_script input_data one_port []
                     [0, 1, 2, 3, 4, 5, 6, 7, 8, 9, 10, 11, 12, 13, 14, 15]))"
  by (simp add: eval_simps)

section \<open>Properties of the port menus\<close>

lemma await_ports_Returns:
  "await_ports world k inputs = (tr, Returns (ports, rest)) \<Longrightarrow>
     \<exists>j. tr = concat (replicate j [Scan, Input no_port_prompt]) @ [Scan]
       \<and> (\<forall>i<j. serial_ports (world (k + i)) = Inr [])
       \<and> serial_ports (world (k + j)) = Inr ports \<and> ports \<noteq> []
       \<and> rest = drop j inputs \<and> j \<le> length inputs"
proof (induction inputs arbitrary: k tr)
  case Nil
  show ?case
  proof (cases "serial_ports (world k)")
    case (Inl e)
    then show ?thesis using Nil by simp
  next
    case (Inr ps)
    then have "ps \<noteq> []" and "tr = [Scan]" and "ports = ps" and "rest = []"
      using Nil by (auto split: if_splits)
    then show ?thesis
      using Inr by (intro exI [of _ 0]) simp
  qed
next
  case (Cons line lines)
  show ?case
  proof (cases "serial_ports (world k)")
    case (Inl e)
    then show ?thesis using Cons.prems by simp
  next
    case (Inr ps)
    show ?thesis
    proof (cases "ps = []")
      case False
      then have "tr = [Scan]" and "ports = ps" and "rest = line # lines"
        using Cons.prems Inr by auto
      then show ?thesis
        using Inr False by (intro exI [of _ 0]) simp
    next
      case True
      then have "bind_io ([Scan, Input no_port_prompt], Returns ())
                   (\<lambda>_. await_ports world (Suc k) lines) = (tr, Returns (ports, rest))"
        using Cons.prems Inr by simp
      from bind_io_Returns [OF this] obtain t2 where
        rec: "await_ports world (Suc k) lines = (t2, Returns (ports, rest))"
        and tr: "tr = [Scan, Input no_port_prompt] @ t2"
        by auto
      from Cons.IH [OF rec] obtain j where
        t2: "t2 = concat (replicate j [Scan, Input no_port_prompt]) @ [Scan]"
        and empties: "\<forall>i<j. serial_ports (world (Suc k + i)) = Inr []"
        and found: "serial_ports (world (Suc k + j)) = Inr ports" "ports \<noteq> []"
        and rest: "rest = drop j lines" "j \<le> length lines"
        by blast
      have e: "\<forall>i<Suc j. serial_ports (world (k + i)) = Inr []"
      proof (intro allI impI)
        fix i assume "i < Suc j"
        then show "serial_ports (world (k + i)) = Inr []"
          using empties Inr True by (cases i) auto
      qed
      show ?thesis
        using tr t2 e found rest by (intro exI [of _ "Suc j"]) simp
    qed
  qed
qed

lemma py_index_member: "py_index xs i = Inr x \<Longrightarrow> x \<in> set xs"
  by (auto simp: py_index_def split: if_splits)

lemma menu_lines_prints: "Scan \<notin> set (menu_lines ps) \<and> Input no_port_prompt \<notin> set (menu_lines ps)"
  by (auto simp: menu_lines_def)

lemma no_port_prompt_nonempty: "no_port_prompt \<noteq> []"
  by (simp add: no_port_prompt_def)

lemma choose_port_Returns:
  "choose_port ps inputs = (tr, Returns (port, rest)) \<Longrightarrow>
     port \<in> set ps \<and> Scan \<notin> set tr \<and> Input no_port_prompt \<notin> set tr"
proof (induction inputs arbitrary: tr)
  case Nil
  then show ?case by simp
next
  case (Cons line lines)
  note quiet = menu_lines_prints [of ps] no_port_prompt_nonempty
  show ?case
  proof (cases "py_int line")
    case None
    then have "bind_io (menu_lines ps @ [Input [], Print ''Wrong reponse type, try again !''],
                 Returns ()) (\<lambda>_. choose_port ps lines) = (tr, Returns (port, rest))"
      using Cons.prems by simp
    from bind_io_Returns [OF this] obtain t2 where
      rec: "choose_port ps lines = (t2, Returns (port, rest))"
      and tr: "tr = (menu_lines ps @ [Input [], Print ''Wrong reponse type, try again !'']) @ t2"
      by auto
    from Cons.IH [OF rec] show ?thesis
      using quiet by (auto simp: tr)
  next
    case (Some resp)
    show ?thesis
    proof (cases "py_index ps resp")
      case (Inr p)
      then have "tr = menu_lines ps @ [Input []]" and "port = p"
        using Cons.prems Some by simp_all
      then show ?thesis
        using quiet py_index_member [OF Inr] by auto
    next
      case (Inl e)
      then have "bind_io (menu_lines ps
                   @ [Input [], Print (show_int resp @ '' is out of range, try again !'')],
                 Returns ()) (\<lambda>_. choose_port ps lines) = (tr, Returns (port, rest))"
        using Cons.prems Some by simp
      from bind_io_Returns [OF this] obtain t2 where
        rec: "choose_port ps lines = (t2, Returns (port, rest))"
        and tr: "tr = (menu_lines ps
                   @ [Input [], Print (show_int resp @ '' is out of range, try again !'')]) @ t2"
        by auto
      from Cons.IH [OF rec] show ?thesis
        using quiet by (auto simp: tr)
    qed
  qed
qed

lemma menus_Return:
  assumes "serial_port_menu world k inputs = (tr, Returns (port, rest))
           \<or> loopback_serial_port_menu world k inputs = (tr, Returns (port, rest))"
  shows "\<exists>t1 ps r1 t2. await_ports world k inputs = (t1, Returns (ps, r1)) \<and> tr = t1 @ t2
           \<and> port \<in> set ps \<and> Scan \<notin> set t2 \<and> Input no_port_prompt \<notin> set t2"
  using assms
proof
  assume "serial_port_menu world k inputs = (tr, Returns (port, rest))"
  then have "bind_io (await_ports world k inputs) (\<lambda>(available_ports, rest).
       choose_port available_ports rest) = (tr, Returns (port, rest))"
    by (simp add: serial_port_menu_def)
  from bind_io_Returns [OF this] obtain t1 x t2 where
    a: "await_ports world k inputs = (t1, Returns x)"
    and c: "(case x of (available_ports, rest) \<Rightarrow> choose_port available_ports rest)
              = (t2, Returns (port, rest))"
    and tr: "tr = t1 @ t2"
    by blast
  obtain ps r1 where x: "x = (ps, r1)"
    by (cases x)
  from c x have "choose_port ps r1 = (t2, Returns (port, rest))"
    by simp
  from choose_port_Returns [OF this] a x tr show ?thesis
    by blast
next
  assume "loopback_serial_port_menu world k inputs = (tr, Returns (port, rest))"
  then have "bind_io (await_ports world k inputs) (\<lambda>(available_ports, rest).
       if length available_ports = 1
       then ([Print (''Using only available port '' @ [CHR 0x22] @ available_ports ! 0 @ [CHR 0x22])],
             Returns (available_ports ! 0, rest))
       else choose_port available_ports rest) = (tr, Returns (port, rest))"
    by (simp add: loopback_serial_port_menu_def)
  from bind_io_Returns [OF this] obtain t1 x t2 where
    a: "await_ports world k inputs = (t1, Returns x)"
    and c: "(case x of (available_ports, rest) \<Rightarrow>
       if length available_ports = 1
       then ([Print (''Using only available port '' @ [CHR 0x22] @ available_ports ! 0 @ [CHR 0x22])],
             Returns (available_ports ! 0, rest))
       else choose_port available_ports rest) = (t2, Returns (port, rest))"
    and tr: "tr = t1 @ t2"
    by blast
  obtain ps r1 where x: "x = (ps, r1)"
    by (cases x)
  show ?thesis
  proof (cases "length ps = 1")
    case True
    then have "t2 = [Print (''Using only available port '' @ [CHR 0x22] @ ps ! 0 @ [CHR 0x22])]"
      and "port = ps ! 0"
      using c x by auto
    moreover have "ps ! 0 \<in> set ps"
      using True by (cases ps) auto
    ultimately show ?thesis
      using a x tr by auto
  next
    case False
    then have "choose_port ps r1 = (t2, Returns (port, rest))"
      using c x by simp
    from choose_port_Returns [OF this] a x tr show ?thesis
      by blast
  qed
qed

lemma await_ports_found:
  assumes "\<forall>i<j. serial_ports (world (k + i)) = Inr []"
    and "serial_ports (world (k + j)) = Inr ports" and "ports \<noteq> []" and "j \<le> length inputs"
  shows "await_ports world k inputs
           = (concat (replicate j [Scan, Input no_port_prompt]) @ [Scan],
              Returns (ports, drop j inputs))"
  using assms
proof (induction j arbitrary: k inputs)
  case 0
  then show ?case
    by (cases inputs) simp_all
next
  case (Suc j)
  from Suc.prems(4) obtain line rest where inputs: "inputs = line # rest"
    by (cases inputs) auto
  have "0 < Suc j"
    by simp
  with Suc.prems(1) have "serial_ports (world (k + 0)) = Inr []"
    by blast
  then have first: "serial_ports (world k) = Inr []"
    by simp
  have e: "\<forall>i<j. serial_ports (world (Suc k + i)) = Inr []"
  proof (intro allI impI)
    fix i assume "i < j"
    then have "Suc i < Suc j"
      by simp
    with Suc.prems(1) have "serial_ports (world (k + Suc i)) = Inr []"
      by blast
    then show "serial_ports (world (Suc k + i)) = Inr []"
      by simp
  qed
  have f: "serial_ports (world (Suc k + j)) = Inr ports"
    using Suc.prems(2) by simp
  have l: "j \<le> length rest"
    using Suc.prems(4) inputs by simp
  have rec: "await_ports world (Suc k) rest
               = (concat (replicate j [Scan, Input no_port_prompt]) @ [Scan],
                  Returns (ports, drop j rest))"
    using e f Suc.prems(3) l by (rule Suc.IH)
  show ?case
    by (simp add: inputs first rec)
qed

lemma await_ports_starved:
  assumes "\<forall>i\<le>length inputs. serial_ports (world (k + i)) = Inr []"
  shows "await_ports world k inputs
           = (concat (replicate (Suc (length inputs)) [Scan, Input no_port_prompt]),
              Raises EOFError)"
  using assms
proof (induction inputs arbitrary: k)
  case Nil
  then show ?case
    by simp
next
  case (Cons line rest)
  have "0 \<le> length (line # rest)"
    by simp
  with Cons.prems have "serial_ports (world (k + 0)) = Inr []"
    by blast
  then have first: "serial_ports (world k) = Inr []"
    by simp
  have e: "\<forall>i\<le>length rest. serial_ports (world (Suc k + i)) = Inr []"
  proof (intro allI impI)
    fix i assume "i \<le> length rest"
    then have "Suc i \<le> length (line # rest)"
      by simp
    with Cons.prems have "serial_ports (world (k + Suc i)) = Inr []"
      by blast
    then show "serial_ports (world (Suc k + i)) = Inr []"
      by simp
  qed
  have rec: "await_ports world (Suc k) rest
               = (concat (replicate (Suc (length rest)) [Scan, Input no_port_prompt]),
                  Raises EOFError)"
    using e by (rule Cons.IH)
  show ?case
    by (simp add: first rec)
qed

lemma fst_bind_io_Returns: "fst (bind_io (tr, Returns x) f) = tr @ fst (f x)"
  by (cases "f x") simp

lemma snd_bind_io_Returns: "snd (bind_io (tr, Returns x) f) = snd (f x)"
  by (cases "f x") simp

lemma choose_port_quiet:
  "Scan \<notin> set (fst (choose_port ps inputs))
   \<and> Input no_port_prompt \<notin> set (fst (choose_port ps inputs))"
proof (induction inputs)
  case Nil
  show ?case
    using menu_lines_prints [of ps] no_port_prompt_nonempty by auto
next
  case (Cons line lines)
  note quiet = menu_lines_prints [of ps] no_port_prompt_nonempty
  show ?case
  proof (cases "py_int line")
    case None
    then show ?thesis
      using Cons.IH quiet by (auto simp add: fst_bind_io_Returns simp del: bind_io.simps)
  next
    case (Some resp)
    show ?thesis
    proof (cases "py_index ps resp")
      case (Inr p)
      then show ?thesis
        using Some quiet by auto
    next
      case (Inl e)
      then show ?thesis
        using Some Cons.IH quiet by (auto simp add: fst_bind_io_Returns simp del: bind_io.simps)
    qed
  qed
qed

lemma count_rounds:
  "length (filter (\<lambda>e. e = Input no_port_prompt) (concat (replicate j [Scan, Input no_port_prompt]))) = j
   \<and> length (filter (\<lambda>e. e = Scan) (concat (replicate j [Scan, Input no_port_prompt]))) = j"
  by (induction j) simp_all

lemma filter_quiet: "x \<notin> set xs \<Longrightarrow> filter (\<lambda>e. e = x) xs = []"
  by (induction xs) auto

lemma menus_found:
  assumes "\<forall>i<j. serial_ports (world (k + i)) = Inr []"
    and "serial_ports (world (k + j)) = Inr ports" and "ports \<noteq> []" and "j \<le> length inputs"
  shows "serial_port_menu world k inputs
           = bind_io (concat (replicate j [Scan, Input no_port_prompt]) @ [Scan], Returns ())
               (\<lambda>_. choose_port ports (drop j inputs))"
    and "loopback_serial_port_menu world k inputs
           = bind_io (concat (replicate j [Scan, Input no_port_prompt]) @ [Scan], Returns ())
               (\<lambda>_. if length ports = 1
                     then ([Print (''Using only available port '' @ [CHR 0x22] @ ports ! 0 @ [CHR 0x22])],
                           Returns (ports ! 0, drop j inputs))
                     else choose_port ports (drop j inputs))"
  by (simp_all add: serial_port_menu_def loopback_serial_port_menu_def await_ports_found [OF assms])

lemma menus_found_counts:
  assumes "\<forall>i<j. serial_ports (world (k + i)) = Inr []"
    and "serial_ports (world (k + j)) = Inr ports" and "ports \<noteq> []" and "j \<le> length inputs"
  shows "length (filter (\<lambda>e. e = Input no_port_prompt) (fst (serial_port_menu world k inputs))) = j"
    and "length (filter (\<lambda>e. e = Scan) (fst (serial_port_menu world k inputs))) = Suc j"
    and "length (filter (\<lambda>e. e = Input no_port_prompt)
           (fst (loopback_serial_port_menu world k inputs))) = j"
    and "length (filter (\<lambda>e. e = Scan) (fst (loopback_serial_port_menu world k inputs))) = Suc j"
proof -
  note quiet = choose_port_quiet [of ports "drop j inputs"]
  have q1: "filter (\<lambda>e. e = Input no_port_prompt) (fst (choose_port ports (drop j inputs))) = []"
    using quiet by (simp add: filter_quiet)
  have q2: "filter (\<lambda>e. e = Scan) (fst (choose_port ports (drop j inputs))) = []"
    using quiet by (simp add: filter_quiet)
  show "length (filter (\<lambda>e. e = Input no_port_prompt) (fst (serial_port_menu world k inputs))) = j"
    by (simp add: menus_found(1) [OF assms] fst_bind_io_Returns count_rounds q1
        del: bind_io.simps)
  show "length (filter (\<lambda>e. e = Scan) (fst (serial_port_menu world k inputs))) = Suc j"
    by (simp add: menus_found(1) [OF assms] fst_bind_io_Returns count_rounds q2
        del: bind_io.simps)
  show "length (filter (\<lambda>e. e = Input no_port_prompt)
           (fst (loopback_serial_port_menu world k inputs))) = j"
    by (simp add: menus_found(2) [OF assms] fst_bind_io_Returns count_rounds q1
        del: bind_io.simps)
  show "length (filter (\<lambda>e. e = Scan) (fst (loopback_serial_port_menu world k inputs))) = Suc j"
    by (simp add: menus_found(2) [OF assms] fst_bind_io_Returns count_rounds q2
        del: bind_io.simps)
qed

lemma menus_found_port:
  assumes "\<forall>i<j. serial_ports (world (k + i)) = Inr []"
    and "serial_ports (world (k + j)) = Inr ports" and "ports \<noteq> []" and "j \<le> length inputs"
    and "snd (serial_port_menu world k inputs) = Returns (p, r)
         \<or> snd (loopback_serial_port_menu world k inputs) = Returns (p, r)"
  shows "p \<in> set ports"
proof -
  have chosen: "p \<in> set ports" if "snd (choose_port ports (drop j inputs)) = Returns (p, r)"
  proof -
    from that have "choose_port ports (drop j inputs)
                      = (fst (choose_port ports (drop j inputs)), Returns (p, r))"
      by (metis prod.collapse)
    from choose_port_Returns [OF this] show ?thesis
      by simp
  qed
  from assms(5) show ?thesis
  proof
    assume "snd (serial_port_menu world k inputs) = Returns (p, r)"
    then show ?thesis
      using chosen
      by (simp add: menus_found(1) [OF assms(1-4)] snd_bind_io_Returns del: bind_io.simps)
  next
    assume l: "snd (loopback_serial_port_menu world k inputs) = Returns (p, r)"
    show ?thesis
    proof (cases "length ports = 1")
      case True
      with l have "p = ports ! 0"
        by (simp add: menus_found(2) [OF assms(1-4)] snd_bind_io_Returns del: bind_io.simps)
      then show ?thesis
        using assms(3) by (cases ports) auto
    next
      case False
      with l show ?thesis
        using chosen
        by (simp add: menus_found(2) [OF assms(1-4)] snd_bind_io_Returns del: bind_io.simps)
    qed
  qed
qed

lemma menus_starved:
  assumes "\<forall>i\<le>length inputs. serial_ports (world (k + i)) = Inr []"
  shows "serial_port_menu world k inputs
           = (concat (replicate (Suc (length inputs)) [Scan, Input no_port_prompt]), Raises EOFError)"
    and "loopback_serial_port_menu world k inputs
           = (concat (replicate (Suc (length inputs)) [Scan, Input no_port_prompt]), Raises EOFError)"
  by (simp_all add: serial_port_menu_def loopback_serial_port_menu_def
      await_ports_starved [OF assms])

lemma menus_Return_rounds:
  assumes "serial_port_menu world k inputs = (tr, Returns (port, rest))
           \<or> loopback_serial_port_menu world k inputs = (tr, Returns (port, rest))"
  shows "\<exists>j ps tr'.
           tr = concat (replicate j [Scan, Input no_port_prompt]) @ Scan # tr'
           \<and> Scan \<notin> set tr' \<and> Input no_port_prompt \<notin> set tr'
           \<and> (\<forall>i<j. serial_ports (world (k + i)) = Inr [])
           \<and> serial_ports (world (k + j)) = Inr ps \<and> ps \<noteq> [] \<and> port \<in> set ps
           \<and> (serial_ports (world k) = Inr []
                \<and> (\<exists>p. serial_ports (world (Suc k)) = Inr p \<and> p \<noteq> []) \<longrightarrow> j = 1)"
proof -
  from menus_Return [OF assms] obtain t1 ps r1 t2 where
    a: "await_ports world k inputs = (t1, Returns (ps, r1))" and tr: "tr = t1 @ t2"
    and port: "port \<in> set ps" and quiet: "Scan \<notin> set t2" "Input no_port_prompt \<notin> set t2"
    by blast
  from await_ports_Returns [OF a] obtain j where
    t1: "t1 = concat (replicate j [Scan, Input no_port_prompt]) @ [Scan]"
    and empties: "\<forall>i<j. serial_ports (world (k + i)) = Inr []"
    and found: "serial_ports (world (k + j)) = Inr ps" "ps \<noteq> []"
    by blast
  have one: "j = 1" if first: "serial_ports (world k) = Inr []"
    and second: "\<exists>p. serial_ports (world (Suc k)) = Inr p \<and> p \<noteq> []"
  proof -
    have "j \<noteq> 0"
      using first found by (cases j) auto
    moreover have "\<not> 1 < j"
    proof
      assume "1 < j"
      then have "serial_ports (world (k + 1)) = Inr []"
        using empties by blast
      then show False
        using second by auto
    qed
    ultimately show ?thesis
      by simp
  qed
  have "tr = concat (replicate j [Scan, Input no_port_prompt]) @ Scan # t2"
    by (simp add: tr t1)
  with quiet empties found port one show ?thesis
    by blast
qed

section \<open>C8: waiting for a port\<close>

text \<open>
  C8, for the port menu of either script. If the first \<open>j\<close> enumerations find nothing, the
  next one finds the ports \<open>ports\<close>, and the operator answers at least \<open>j\<close> prompts, the
  menu runs exactly \<open>j\<close> rounds of "enumerate, then prompt" and one more enumeration before
  it goes on to the choice among \<open>ports\<close>: \<open>j\<close> prompts, one per empty result, \<open>j + 1\<close>
  enumerations, and a port it returns is one of \<open>ports\<close>. If every enumeration finds
  nothing, the menu prompts after each one and does not return: the run ends when the
  operator's input does. Conversely, whenever a menu returns a port, its trace starts with
  such rounds, no enumeration and no such prompt comes after the one that found ports, and
  the port is one of those; with an enumerator that finds nothing at the first call and
  something at the second there is one prompt and there are two enumerations.
\<close>

theorem serial_port_menu_waits:
  "((\<forall>i<j. serial_ports (world (k + i)) = Inr []) \<and> serial_ports (world (k + j)) = Inr ports
      \<and> ports \<noteq> [] \<and> j \<le> length inputs
     \<longrightarrow> serial_port_menu world k inputs
           = bind_io (concat (replicate j [Scan, Input no_port_prompt]) @ [Scan], Returns ())
               (\<lambda>_. choose_port ports (drop j inputs))
         \<and> loopback_serial_port_menu world k inputs
           = bind_io (concat (replicate j [Scan, Input no_port_prompt]) @ [Scan], Returns ())
               (\<lambda>_. if length ports = 1
                     then ([Print (''Using only available port '' @ [CHR 0x22] @ ports ! 0 @ [CHR 0x22])],
                           Returns (ports ! 0, drop j inputs))
                     else choose_port ports (drop j inputs))
         \<and> length (filter (\<lambda>e. e = Input no_port_prompt) (fst (serial_port_menu world k inputs))) = j
         \<and> length (filter (\<lambda>e. e = Scan) (fst (serial_port_menu world k inputs))) = Suc j
         \<and> length (filter (\<lambda>e. e = Input no_port_prompt)
              (fst (loopback_serial_port_menu world k inputs))) = j
         \<and> length (filter (\<lambda>e. e = Scan) (fst (loopback_serial_port_menu world k inputs))) = Suc j
         \<and> (\<forall>p r. snd (serial_port_menu world k inputs) = Returns (p, r)
                    \<or> snd (loopback_serial_port_menu world k inputs) = Returns (p, r)
                  \<longrightarrow> p \<in> set ports))
   \<and> ((\<forall>i\<le>length inputs. serial_ports (world (k + i)) = Inr [])
     \<longrightarrow> serial_port_menu world k inputs
           = (concat (replicate (Suc (length inputs)) [Scan, Input no_port_prompt]), Raises EOFError)
         \<and> loopback_serial_port_menu world k inputs
           = (concat (replicate (Suc (length inputs)) [Scan, Input no_port_prompt]), Raises EOFError))
   \<and> (serial_port_menu world k inputs = (tr, Returns (port, rest))
        \<or> loopback_serial_port_menu world k inputs = (tr, Returns (port, rest))
     \<longrightarrow> (\<exists>j ps tr'.
           tr = concat (replicate j [Scan, Input no_port_prompt]) @ Scan # tr'
           \<and> Scan \<notin> set tr' \<and> Input no_port_prompt \<notin> set tr'
           \<and> (\<forall>i<j. serial_ports (world (k + i)) = Inr [])
           \<and> serial_ports (world (k + j)) = Inr ps \<and> ps \<noteq> [] \<and> port \<in> set ps
           \<and> (serial_ports (world k) = Inr []
                \<and> (\<exists>p. serial_ports (world (Suc k)) = Inr p \<and> p \<noteq> []) \<longrightarrow> j = 1)))"
proof (intro conjI impI)
  assume h: "(\<forall>i<j. serial_ports (world (k + i)) = Inr []) \<and> serial_ports (world (k + j)) = Inr ports
      \<and> ports \<noteq> [] \<and> j \<le> length inputs"
  then have a: "\<forall>i<j. serial_ports (world (k + i)) = Inr []"
    and b: "serial_ports (world (k + j)) = Inr ports" and c: "ports \<noteq> []" and d: "j \<le> length inputs"
    by simp_all
  show "serial_port_menu world k inputs
           = bind_io (concat (replicate j [Scan, Input no_port_prompt]) @ [Scan], Returns ())
               (\<lambda>_. choose_port ports (drop j inputs))"
    using a b c d by (rule menus_found(1))
  show "loopback_serial_port_menu world k inputs
           = bind_io (concat (replicate j [Scan, Input no_port_prompt]) @ [Scan], Returns ())
               (\<lambda>_. if length ports = 1
                     then ([Print (''Using only available port '' @ [CHR 0x22] @ ports ! 0 @ [CHR 0x22])],
                           Returns (ports ! 0, drop j inputs))
                     else choose_port ports (drop j inputs))"
    using a b c d by (rule menus_found(2))
  show "length (filter (\<lambda>e. e = Input no_port_prompt) (fst (serial_port_menu world k inputs))) = j"
    using a b c d by (rule menus_found_counts(1))
  show "length (filter (\<lambda>e. e = Scan) (fst (serial_port_menu world k inputs))) = Suc j"
    using a b c d by (rule menus_found_counts(2))
  show "length (filter (\<lambda>e. e = Input no_port_prompt)
              (fst (loopback_serial_port_menu world k inputs))) = j"
    using a b c d by (rule menus_found_counts(3))
  show "length (filter (\<lambda>e. e = Scan) (fst (loopback_serial_port_menu world k inputs))) = Suc j"
    using a b c d by (rule menus_found_counts(4))
  show "\<forall>p r. snd (serial_port_menu world k inputs) = Returns (p, r)
                    \<or> snd (loopback_serial_port_menu world k inputs) = Returns (p, r)
                  \<longrightarrow> p \<in> set ports"
    using menus_found_port [OF a b c d] by blast
next
  assume s: "\<forall>i\<le>length inputs. serial_ports (world (k + i)) = Inr []"
  show "serial_port_menu world k inputs
           = (concat (replicate (Suc (length inputs)) [Scan, Input no_port_prompt]), Raises EOFError)"
    using s by (rule menus_starved(1))
  show "loopback_serial_port_menu world k inputs
           = (concat (replicate (Suc (length inputs)) [Scan, Input no_port_prompt]), Raises EOFError)"
    using s by (rule menus_starved(2))
next
  assume "serial_port_menu world k inputs = (tr, Returns (port, rest))
        \<or> loopback_serial_port_menu world k inputs = (tr, Returns (port, rest))"
  then show "\<exists>j ps tr'.
           tr = concat (replicate j [Scan, Input no_port_prompt]) @ Scan # tr'
           \<and> Scan \<notin> set tr' \<and> Input no_port_prompt \<notin> set tr'
           \<and> (\<forall>i<j. serial_ports (world (k + i)) = Inr [])
           \<and> serial_ports (world (k + j)) = Inr ps \<and> ps \<noteq> [] \<and> port \<in> set ps
           \<and> (serial_ports (world k) = Inr []
                \<and> (\<exists>p. serial_ports (world (Suc k)) = Inr p \<and> p \<noteq> []) \<longrightarrow> j = 1)"
    by (rule menus_Return_rounds)
qed

theorem serial_port_menu_waits_witness:
  "serial_ports (plugged_late 0) = Inr []
   \<and> serial_ports (plugged_late 1) = Inr [''/dev/ttyUSB0'', ''/dev/ttyUSB1'', ''/dev/ttyUSB2'']
   \<and> serial_port_menu plugged_late 0 ['''', ''1'']
       = ([Scan, Input no_port_prompt, Scan] @ menu_lines [''/dev/ttyUSB0'', ''/dev/ttyUSB1'', ''/dev/ttyUSB2'']
            @ [Input []],
          Returns (''/dev/ttyUSB1'', []))
   \<and> loopback_serial_port_menu plugged_late 0 ['''', ''1'']
       = ([Scan, Input no_port_prompt, Scan] @ menu_lines [''/dev/ttyUSB0'', ''/dev/ttyUSB1'', ''/dev/ttyUSB2'']
            @ [Input []],
          Returns (''/dev/ttyUSB1'', []))
   \<and> length (filter (\<lambda>e. e = Input no_port_prompt)
         (fst (serial_port_menu plugged_late 0 ['''', ''1'']))) = 1
   \<and> length (filter (\<lambda>e. e = Scan) (fst (serial_port_menu plugged_late 0 ['''', ''1'']))) = 2
   \<and> length (filter (\<lambda>e. e = Input no_port_prompt)
         (fst (loopback_serial_port_menu plugged_late 0 ['''', ''1'']))) = 1
   \<and> length (filter (\<lambda>e. e = Scan) (fst (loopback_serial_port_menu plugged_late 0 ['''', ''1'']))) = 2
   \<and> serial_ports (unplugged 0) = Inr [] \<and> serial_ports (unplugged 1) = Inr []
   \<and> serial_port_menu unplugged 0 ['''']
       = ([Scan, Input no_port_prompt, Scan, Input no_port_prompt], Raises EOFError)
   \<and> loopback_serial_port_menu unplugged 0 ['''']
       = ([Scan, Input no_port_prompt, Scan, Input no_port_prompt], Raises EOFError)"
proof -
  let ?ps = "[''/dev/ttyUSB0'', ''/dev/ttyUSB1'', ''/dev/ttyUSB2'']"
  let ?tr = "[Scan, Input no_port_prompt, Scan] @ menu_lines ?ps @ [Input []]"
  have w0: "serial_ports (plugged_late 0) = Inr []"
    by (simp add: serial_ports_def startswith_def plugged_late_def)
  have w1: "serial_ports (plugged_late 1) = Inr ?ps"
    by (simp add: serial_ports_def startswith_def plugged_late_def)
  have u: "serial_ports (unplugged i) = Inr []" for i
    by (simp add: serial_ports_def startswith_def unplugged_def)
  have p1: "py_int ''1'' = Some 1"
    by (simp add: py_int_def int_space_def digit_value_def)
  have found: "(\<forall>i<1. serial_ports (plugged_late (0 + i)) = Inr [])
      \<and> serial_ports (plugged_late (0 + 1)) = Inr ?ps \<and> ?ps \<noteq> [] \<and> 1 \<le> length ['''', ''1'']"
    using w0 w1 by simp
  have starved: "\<forall>i\<le>length ['''']. serial_ports (unplugged (0 + i)) = Inr []"
    using u by simp
  note late = serial_port_menu_waits [where world = plugged_late and k = 0 and j = 1
      and ports = ?ps and inputs = "['''', ''1'']", THEN conjunct1, THEN mp, OF found]
  note never = serial_port_menu_waits [where world = unplugged and k = 0 and inputs = "['''']",
      THEN conjunct2, THEN conjunct1, THEN mp, OF starved]
  note m1 = late [THEN conjunct1]
  note m2 = late [THEN conjunct2, THEN conjunct1]
  note c1 = late [THEN conjunct2, THEN conjunct2, THEN conjunct1]
  note c2 = late [THEN conjunct2, THEN conjunct2, THEN conjunct2, THEN conjunct1]
  note c3 = late [THEN conjunct2, THEN conjunct2, THEN conjunct2, THEN conjunct2, THEN conjunct1]
  note c4 = late [THEN conjunct2, THEN conjunct2, THEN conjunct2, THEN conjunct2, THEN conjunct2,
      THEN conjunct1]
  note n1 = never [THEN conjunct1]
  note n2 = never [THEN conjunct2]
  have r1: "serial_port_menu plugged_late 0 ['''', ''1''] = (?tr, Returns (''/dev/ttyUSB1'', []))"
    by (simp add: m1 p1 py_index_def)
  have r2: "loopback_serial_port_menu plugged_late 0 ['''', ''1'']
              = (?tr, Returns (''/dev/ttyUSB1'', []))"
    by (simp add: m2 p1 py_index_def)
  have e1: "serial_port_menu unplugged 0 ['''']
       = ([Scan, Input no_port_prompt, Scan, Input no_port_prompt], Raises EOFError)"
    by (simp add: n1)
  have e2: "loopback_serial_port_menu unplugged 0 ['''']
       = ([Scan, Input no_port_prompt, Scan, Input no_port_prompt], Raises EOFError)"
    by (simp add: n2)
  have c2': "length (filter (\<lambda>e. e = Scan) (fst (serial_port_menu plugged_late 0 ['''', ''1'']))) = 2"
    using c2 by simp
  have c4': "length (filter (\<lambda>e. e = Scan)
         (fst (loopback_serial_port_menu plugged_late 0 ['''', ''1'']))) = 2"
    using c4 by simp
  show ?thesis
    apply (intro conjI)
               apply (rule w0)
              apply (rule w1)
             apply (rule r1)
            apply (rule r2)
           apply (rule c1)
          apply (rule c2')
         apply (rule c3)
        apply (rule c4')
       apply (rule u)
      apply (rule u)
     apply (rule e1)
    apply (rule e2)
    done
qed

section \<open>Properties of the exchange and of one transfer\<close>

lemma transfer_each_single:
  assumes "chunk \<noteq> []" and "16 \<le> length incoming"
  shows "transfer_each port baudrate [chunk] [incoming]
           = ([Open port baudrate, Sleep_ms 100] @ map (\<lambda>b. Write (Elem b)) chunk
                @ replicate (16 - length chunk) (Write (Bytes [0x30]))
                @ [Close, Open port baudrate, Sleep_ms 100, Read 16, Close],
              Returns [take 16 incoming])"
  using assms(2)
  by (simp add: write_chunk_nonempty [OF assms(1)] read_chunk_def)

section \<open>C4: the exchange of the self-test\<close>

text \<open>
  C4, as stated, fails: the exchange of the self-test does not behave as the
  \<open>write_chunk\<close>/\<open>read_chunk\<close> pair of the session variant. For the fixed payload it
  opens the port once, sleeps at no point, gives the 16 bytes to a single write call and
  reads on the same connection, whereas the pair sleeps 100 ms after each of its two opens,
  issues sixteen write calls and reads on a second open.
\<close>

theorem exchange_is_not_a_transfer:
  "exchange ''/dev/ttyUSB0'' 115200 [0, 1, 2, 3, 4, 5, 6, 7, 8, 9, 10, 11, 12, 13, 14, 15]
       [0, 1, 2, 3, 4, 5, 6, 7, 8, 9, 10, 11, 12, 13, 14, 15]
     = ([Open ''/dev/ttyUSB0'' 115200,
         Write (Bytes [0, 1, 2, 3, 4, 5, 6, 7, 8, 9, 10, 11, 12, 13, 14, 15]), Read 16, Close],
        Returns [0, 1, 2, 3, 4, 5, 6, 7, 8, 9, 10, 11, 12, 13, 14, 15])
   \<and> fst (transfer_each ''/dev/ttyUSB0'' 115200 [[0, 1, 2, 3, 4, 5, 6, 7, 8, 9, 10, 11, 12, 13, 14, 15]]
            [[0, 1, 2, 3, 4, 5, 6, 7, 8, 9, 10, 11, 12, 13, 14, 15]])
     = [Open ''/dev/ttyUSB0'' 115200, Sleep_ms 100,
        Write (Elem 0), Write (Elem 1), Write (Elem 2), Write (Elem 3), Write (Elem 4),
        Write (Elem 5), Write (Elem 6), Write (Elem 7), Write (Elem 8), Write (Elem 9),
        Write (Elem 10), Write (Elem 11), Write (Elem 12), Write (Elem 13), Write (Elem 14),
        Write (Elem 15), Close,
        Open ''/dev/ttyUSB0'' 115200, Sleep_ms 100, Read 16, Close]
   \<and> fst (exchange ''/dev/ttyUSB0'' 115200 [0, 1, 2, 3, 4, 5, 6, 7, 8, 9, 10, 11, 12, 13, 14, 15]
            [0, 1, 2, 3, 4, 5, 6, 7, 8, 9, 10, 11, 12, 13, 14, 15])
     \<noteq> fst (transfer_each ''/dev/ttyUSB0'' 115200 [[0, 1, 2, 3, 4, 5, 6, 7, 8, 9, 10, 11, 12, 13, 14, 15]]
            [[0, 1, 2, 3, 4, 5, 6, 7, 8, 9, 10, 11, 12, 13, 14, 15]])
   \<and> Sleep_ms 100
     \<notin> set (fst (exchange ''/dev/ttyUSB0'' 115200 [0, 1, 2, 3, 4, 5, 6, 7, 8, 9, 10, 11, 12, 13, 14, 15]
                   [0, 1, 2, 3, 4, 5, 6, 7, 8, 9, 10, 11, 12, 13, 14, 15]))"
proof -
  let ?P = "[0, 1, 2, 3, 4, 5, 6, 7, 8, 9, 10, 11, 12, 13, 14, 15] :: byte list"
  have ne: "?P \<noteq> []" and len: "16 \<le> length ?P"
    by simp_all
  have pair: "fst (transfer_each ''/dev/ttyUSB0'' 115200 [?P] [?P])
     = [Open ''/dev/ttyUSB0'' 115200, Sleep_ms 100,
        Write (Elem 0), Write (Elem 1), Write (Elem 2), Write (Elem 3), Write (Elem 4),
        Write (Elem 5), Write (Elem 6), Write (Elem 7), Write (Elem 8), Write (Elem 9),
        Write (Elem 10), Write (Elem 11), Write (Elem 12), Write (Elem 13), Write (Elem 14),
        Write (Elem 15), Close,
        Open ''/dev/ttyUSB0'' 115200, Sleep_ms 100, Read 16, Close]"
    by (simp only: transfer_each_single [OF ne len]) simp
  show ?thesis
    by (simp add: exchange_def pair del: transfer_each.simps)
qed

text \<open>
  C4, amended. The self-test's exchange does not behave as one transfer call of the session
  variant: it opens the port once, waits no settling delay, issues the whole payload in one
  bulk write call and reads 16 bytes on the same connection before closing it. It is the
  session variant's \<open>write_chunk\<close>/\<open>read_chunk\<close> pair that, for a chunk of 1 to 16 bytes,
  waits the 100 ms settling delay after opening, issues one write call per chunk byte (given
  the element \<^verbatim>\<open>chunk[i]\<close>) followed by the padding calls, closes, and performs the
  16-byte read-back on a separate open after the same delay.
\<close>

theorem exchange_and_transfer:
  "(1 \<le> length chunk \<and> length chunk \<le> 16 \<and> 16 \<le> length incoming
      \<longrightarrow> transfer_each port baudrate [chunk] [incoming]
            = ([Open port baudrate, Sleep_ms 100] @ map (\<lambda>b. Write (Elem b)) chunk
                 @ replicate (16 - length chunk) (Write (Bytes [0x30]))
                 @ [Close, Open port baudrate, Sleep_ms 100, Read 16, Close],
               Returns [take 16 incoming]))
   \<and> (16 \<le> length incoming
      \<longrightarrow> exchange port baudrate payload incoming
            = ([Open port baudrate, Write (Bytes payload), Read 16, Close],
               Returns (take 16 incoming)))"
proof -
  have 1: "transfer_each port baudrate [chunk] [incoming]
            = ([Open port baudrate, Sleep_ms 100] @ map (\<lambda>b. Write (Elem b)) chunk
                 @ replicate (16 - length chunk) (Write (Bytes [0x30]))
                 @ [Close, Open port baudrate, Sleep_ms 100, Read 16, Close],
               Returns [take 16 incoming])"
    if "1 \<le> length chunk" and "16 \<le> length incoming"
  proof -
    from that(1) have "chunk \<noteq> []"
      by auto
    then show ?thesis
      using that(2) by (rule transfer_each_single)
  qed
  have 2: "exchange port baudrate payload incoming
            = ([Open port baudrate, Write (Bytes payload), Read 16, Close],
               Returns (take 16 incoming))"
    if "16 \<le> length incoming"
    using that by (simp add: exchange_def)
  from 1 2 show ?thesis
    by blast
qed

theorem exchange_and_transfer_witness:
  "1 \<le> length [0, 1, 2, 3, 4, 5, 6, 7, 8, 9, 10, 11, 12, 13, 14, 15 :: byte]
   \<and> length [0, 1, 2, 3, 4, 5, 6, 7, 8, 9, 10, 11, 12, 13, 14, 15 :: byte] \<le> 16
   \<and> 16 \<le> length [0, 1, 2, 3, 4, 5, 6, 7, 8, 9, 10, 11, 12, 13, 14, 15 :: byte]
   \<and> transfer_each ''/dev/ttyUSB0'' 115200 [[0, 1, 2, 3, 4, 5, 6, 7, 8, 9, 10, 11, 12, 13, 14, 15]]
         [[0, 1, 2, 3, 4, 5, 6, 7, 8, 9, 10, 11, 12, 13, 14, 15]]
       = ([Open ''/dev/ttyUSB0'' 115200, Sleep_ms 100,
           Write (Elem 0), Write (Elem 1), Write (Elem 2), Write (Elem 3), Write (Elem 4),
           Write (Elem 5), Write (Elem 6), Write (Elem 7), Write (Elem 8), Write (Elem 9),
           Write (Elem 10), Write (Elem 11), Write (Elem 12), Write (Elem 13), Write (Elem 14),
           Write (Elem 15), Close,
           Open ''/dev/ttyUSB0'' 115200, Sleep_ms 100, Read 16, Close],
          Returns [[0, 1, 2, 3, 4, 5, 6, 7, 8, 9, 10, 11, 12, 13, 14, 15]])
   \<and> exchange ''/dev/ttyUSB0'' 115200 [0, 1, 2, 3, 4, 5, 6, 7, 8, 9, 10, 11, 12, 13, 14, 15]
         [0, 1, 2, 3, 4, 5, 6, 7, 8, 9, 10, 11, 12, 13, 14, 15]
       = ([Open ''/dev/ttyUSB0'' 115200,
           Write (Bytes [0, 1, 2, 3, 4, 5, 6, 7, 8, 9, 10, 11, 12, 13, 14, 15]), Read 16, Close],
          Returns [0, 1, 2, 3, 4, 5, 6, 7, 8, 9, 10, 11, 12, 13, 14, 15])"
proof -
  let ?P = "[0, 1, 2, 3, 4, 5, 6, 7, 8, 9, 10, 11, 12, 13, 14, 15] :: byte list"
  have h: "1 \<le> length ?P \<and> length ?P \<le> 16 \<and> 16 \<le> length ?P"
    by simp
  note inst = exchange_and_transfer [of ?P ?P "''/dev/ttyUSB0''" 115200 ?P]
  from inst h have a: "transfer_each ''/dev/ttyUSB0'' 115200 [?P] [?P]
            = ([Open ''/dev/ttyUSB0'' 115200, Sleep_ms 100] @ map (\<lambda>b. Write (Elem b)) ?P
                 @ replicate (16 - length ?P) (Write (Bytes [0x30]))
                 @ [Close, Open ''/dev/ttyUSB0'' 115200, Sleep_ms 100, Read 16, Close],
               Returns [take 16 ?P])"
    by blast
  from inst h have b: "exchange ''/dev/ttyUSB0'' 115200 ?P ?P
            = ([Open ''/dev/ttyUSB0'' 115200, Write (Bytes ?P), Read 16, Close],
               Returns (take 16 ?P))"
    by blast
  from a b h show ?thesis
    by simp
qed

end
